theory Spec2Isabelle
  imports Complex_Main "HOL-Library.Char_ord" "HOL-Library.List_Lexorder"
begin

section \<open>Python values used by \<open>nunif/cli/convert_data.py\<close>\<close>

subsection \<open>Exceptions\<close>

text \<open>
  Every exception that the modelled functions can raise is a constructor:
  \<^item> \<open>ZeroDivisionError\<close>: a true division by \<open>0\<close> or \<open>0.0\<close>;
  \<^item> \<open>UnpredictableScale xh xw yh yw\<close>: the
    \<^verbatim>\<open>ValueError(f"Unpredictable scale: x({xh},{xw}), y({yh},{yw})\n")\<close> of the
    paired operations;
  \<^item> \<open>RangeStepZero\<close>: the \<^verbatim>\<open>ValueError\<close> that \<^verbatim>\<open>range(start, stop, 0)\<close> raises;
  \<^item> \<open>AssertionError\<close>: a failed \<^verbatim>\<open>assert\<close>;
  \<^item> \<open>AttributeError a\<close>: access to the attribute \<open>a\<close> that a \<^verbatim>\<open>list\<close> does not have;
  \<^item> \<open>RuntimeError msg\<close>: the \<^verbatim>\<open>RuntimeError\<close> of \<^verbatim>\<open>main\<close>, with its message;
  \<^item> \<open>ValueError msg\<close>: the \<^verbatim>\<open>ValueError\<close>s of \<^verbatim>\<open>main\<close> for the command line, with
    their message;
  \<^item> \<open>UnboundLocalError v\<close>: a read of the local variable \<open>v\<close> that no branch has bound;
  \<^item> \<open>KeyError k\<close>: a read of the key \<open>k\<close> that a dictionary does not hold.
\<close>

datatype error =
    ZeroDivisionError
  | UnpredictableScale int int int int
  | RangeStepZero
  | AssertionError
  | AttributeError string
  | RuntimeError string
  | ValueError string
  | UnboundLocalError string
  | KeyError string

definition and_then :: "error + 'a \<Rightarrow> ('a \<Rightarrow> error + 'b) \<Rightarrow> error + 'b" where
  "and_then m f = (case m of Inl e \<Rightarrow> Inl e | Inr v \<Rightarrow> f v)"

subsection \<open>Floats\<close>

text \<open>
  A Python \<^verbatim>\<open>float\<close> is an IEEE 754 binary64 number. The model represents a finite float
  by its exact rational value; every arithmetic operation computes the exact result and
  rounds it to the nearest number with a 53-bit significand, ties to even
  (\<open>binary64\<close>). The exponent range is not bounded: infinities, NaN and subnormal
  numbers are outside the model, which is the arithmetic of Python as long as every
  value that is not zero has a magnitude of at least \<open>2^-1022\<close> and below \<open>2^1024\<close>. That
  holds of every value that the functions below compute from image dimensions and
  maximal sizes below \<open>2^62\<close> and from step rates that are zero or between \<open>2^-900\<close> and
  \<open>2^900\<close> in magnitude. Beyond that range Python raises \<^verbatim>\<open>OverflowError\<close>, or rounds to
  a subnormal number or to zero, where the model goes on with the rounded value.
\<close>

function bit_length :: "int \<Rightarrow> int" where
  "bit_length n = (if n \<le> 0 then 0 else bit_length (n div 2) + 1)"
  by pat_completeness auto
termination
  by (relation "measure nat") auto

declare bit_length.simps [simp del]

definition binade :: "rat \<Rightarrow> int" where
  \<comment> \<open>the exponent \<open>e\<close> with \<open>2^e \<le> |q| < 2^(e+1)\<close>, for \<open>q \<noteq> 0\<close>\<close>
  "binade q =
     (let (a, b) = quotient_of \<bar>q\<bar>;
          e0 = bit_length a - bit_length b
      in if 2 powi e0 \<le> \<bar>q\<bar> then e0 else e0 - 1)"

definition round_half_even :: "rat \<Rightarrow> int" where
  "round_half_even q =
     (let f = \<lfloor>q\<rfloor>; d = q - of_int f
      in if d < 1 / 2 then f
         else if 1 / 2 < d then f + 1
         else if even f then f else f + 1)"

definition binary64 :: "rat \<Rightarrow> rat" where
  "binary64 q =
     (if q = 0 then 0
      else let ulp = 2 powi (binade q - 52)
           in of_int (round_half_even (q / ulp)) * ulp)"

definition float_of_int :: "int \<Rightarrow> rat" where
  \<comment> \<open>the conversion of an \<^verbatim>\<open>int\<close> operand of a mixed operation\<close>
  "float_of_int n = binary64 (of_int n)"

definition int_of_float :: "rat \<Rightarrow> int" where
  \<comment> \<open>\<^verbatim>\<open>int(f)\<close>: truncation towards zero\<close>
  "int_of_float q = (if 0 \<le> q then \<lfloor>q\<rfloor> else \<lceil>q\<rceil>)"

definition int_truediv :: "int \<Rightarrow> int \<Rightarrow> error + rat" where
  \<comment> \<open>\<^verbatim>\<open>a / b\<close> on two \<^verbatim>\<open>int\<close>s: the correctly rounded quotient\<close>
  "int_truediv a b =
     (if b = 0 then Inl ZeroDivisionError else Inr (binary64 (of_int a / of_int b)))"

definition int_div_float :: "int \<Rightarrow> rat \<Rightarrow> error + rat" where
  \<comment> \<open>\<^verbatim>\<open>n / f\<close> with \<^verbatim>\<open>n\<close> an \<^verbatim>\<open>int\<close> and \<^verbatim>\<open>f\<close> a \<^verbatim>\<open>float\<close>\<close>
  "int_div_float n f =
     (if f = 0 then Inl ZeroDivisionError else Inr (binary64 (float_of_int n / f)))"

definition int_mul_float :: "int \<Rightarrow> rat \<Rightarrow> rat" where
  \<comment> \<open>\<^verbatim>\<open>n * f\<close> with \<^verbatim>\<open>n\<close> an \<^verbatim>\<open>int\<close> and \<^verbatim>\<open>f\<close> a \<^verbatim>\<open>float\<close>\<close>
  "int_mul_float n f = binary64 (float_of_int n * f)"

definition float_sub :: "rat \<Rightarrow> rat \<Rightarrow> rat" where
  "float_sub a b = binary64 (a - b)"

definition scale_tolerance :: rat where
  \<comment> \<open>the literal \<^verbatim>\<open>0.00001\<close>\<close>
  "scale_tolerance = binary64 (1 / 100000)"

definition unit_roundoff :: rat where
  \<comment> \<open>the largest relative error of a rounding\<close>
  "unit_roundoff = 1 / 2 ^ 53"

subsection \<open>Tensors and tiles\<close>

text \<open>
  Modelled from the spec: \<^verbatim>\<open>NF.pad\<close> and \<^verbatim>\<open>NF.to_grayscale\<close>
  (\<^verbatim>\<open>nunif/transforms/functional.py\<close>) are not part of the sources at hand. Following the
  specification, the padding adds its margin on each side and the grayscale conversion
  reduces the channels only.

  A tensor is the channel-first array of a decoded image; the code reads only
  \<^verbatim>\<open>x.shape[1]\<close> (the height) and \<^verbatim>\<open>x.shape[2]\<close> (the width). The constructors record
  where the pixels come from: \<open>Decoded name h w\<close> is \<^verbatim>\<open>TF.to_tensor\<close> of the decoded file
  \<open>name\<close> of height \<open>h\<close> and width \<open>w\<close>, \<open>Padded t p constant\<close> is
  \<^verbatim>\<open>NF.pad(t, (p,) * 4, mode)\<close> with the mode \<^verbatim>\<open>'constant'\<close> or \<^verbatim>\<open>'reflect'\<close>, and
  \<open>Grayscale t\<close> is \<^verbatim>\<open>NF.to_grayscale(t)\<close>.
\<close>

datatype tensor =
    Decoded string nat nat
  | Padded tensor nat bool
  | Grayscale tensor

fun height :: "tensor \<Rightarrow> int" where
  "height (Decoded name h w) = int h"
| "height (Padded t p constant) = height t + 2 * int p"
| "height (Grayscale t) = height t"

fun width :: "tensor \<Rightarrow> int" where
  "width (Decoded name h w) = int w"
| "width (Padded t p constant) = width t + 2 * int p"
| "width (Grayscale t) = width t"

text \<open>
  Modelled from the spec: \<^verbatim>\<open>NF.crop\<close> and \<^verbatim>\<open>NF.crop_ref\<close>
  (\<^verbatim>\<open>nunif/transforms/functional.py\<close>) are not part of the sources at hand. Following
  the data model of the specification, a crop is the tile \<open>{row, col, height, width}\<close>
  cut from its argument: \<open>Crop x i j h w\<close> is \<^verbatim>\<open>NF.crop(x, i, j, h, w)\<close> and
  \<open>CropRef x i j h w\<close> is \<^verbatim>\<open>NF.crop_ref(x, i, j, h, w)\<close>. \<open>Whole x\<close> is the tensor \<open>x\<close>
  itself, returned where the code returns its argument unchanged.
\<close>

datatype tile =
    Whole tensor
  | Crop tensor int int int int
  | CropRef tensor int int int int

fun tile_of :: "tile \<Rightarrow> tensor" where
  "tile_of (Whole x) = x"
| "tile_of (Crop x i j h w) = x"
| "tile_of (CropRef x i j h w) = x"

fun tile_row :: "tile \<Rightarrow> int" where
  "tile_row (Whole x) = 0"
| "tile_row (Crop x i j h w) = i"
| "tile_row (CropRef x i j h w) = i"

fun tile_col :: "tile \<Rightarrow> int" where
  "tile_col (Whole x) = 0"
| "tile_col (Crop x i j h w) = j"
| "tile_col (CropRef x i j h w) = j"

fun tile_height :: "tile \<Rightarrow> int" where
  "tile_height (Whole x) = height x"
| "tile_height (Crop x i j h w) = h"
| "tile_height (CropRef x i j h w) = h"

fun tile_width :: "tile \<Rightarrow> int" where
  "tile_width (Whole x) = width x"
| "tile_width (Crop x i j h w) = w"
| "tile_width (CropRef x i j h w) = w"

section \<open>Cropping a pair to a maximal size\<close>

definition priv_pair_crop_max :: "tensor \<Rightarrow> tensor \<Rightarrow> int \<Rightarrow> error + tile \<times> tile" where
  \<comment> \<open>\<^verbatim>\<open>_pair_crop_max(x, y, max_size)\<close>\<close>
  "priv_pair_crop_max x y max_size =
     (let xh = height x; xw = width x; yh = height y; yw = width y in
      and_then (int_truediv xh yh) (\<lambda>scale_h.
      and_then (int_truediv xw yw) (\<lambda>scale_w.
        if \<bar>float_sub scale_w scale_h\<bar> > scale_tolerance
        then Inl (UnpredictableScale xh xw yh yw)
        else if \<not> xh \<le> yh then Inl AssertionError
        else
          let lr_max_size = int_of_float (int_mul_float max_size scale_h);
              lxh = min xh lr_max_size;
              lxw = min xw lr_max_size
          in if lxh \<noteq> xh \<or> lxw \<noteq> xw
             then
               and_then (int_div_float lxh scale_h) (\<lambda>qh.
               and_then (int_div_float lxw scale_w) (\<lambda>qw.
                 let lyh = int_of_float qh; lyw = int_of_float qw
                 in if lxh = int_of_float (int_mul_float lyh scale_h) \<and>
                       lxw = int_of_float (int_mul_float lyw scale_w)
                    then Inr (CropRef x 0 0 lxh lxw, CropRef y 0 0 lyh lyw)
                    else Inl AssertionError))
             else Inr (Whole x, Whole y))))"

definition pair_crop_max :: "tensor \<Rightarrow> tensor \<Rightarrow> int \<Rightarrow> error + tile \<times> tile" where
  "pair_crop_max x y max_size =
     (if height x \<le> height y
      then priv_pair_crop_max x y max_size
      else and_then (priv_pair_crop_max y x max_size) (\<lambda>(y', x'). Inr (x', y')))"

definition crop_max :: "tensor \<Rightarrow> int \<Rightarrow> tile" where
  "crop_max x max_size =
     (let h = height x; w = width x;
          lh = min h max_size;
          lw = min w max_size
      in if lh \<noteq> h \<or> lw \<noteq> w then CropRef x 0 0 lh lw else Whole x)"

section \<open>Splitting into tiles\<close>

subsection \<open>\<^verbatim>\<open>range\<close>\<close>

function range_up :: "int \<Rightarrow> int \<Rightarrow> int \<Rightarrow> int list" where
  "range_up i stop step =
     (if 0 < step \<and> i < stop then i # range_up (i + step) stop step else [])"
  by pat_completeness auto
termination
  by (relation "measure (\<lambda>(i, stop, step). nat (stop - i))") auto

function range_down :: "int \<Rightarrow> int \<Rightarrow> int \<Rightarrow> int list" where
  "range_down i stop step =
     (if step < 0 \<and> stop < i then i # range_down (i + step) stop step else [])"
  by pat_completeness auto
termination
  by (relation "measure (\<lambda>(i, stop, step). nat (i - stop))") auto

declare range_up.simps [simp del] range_down.simps [simp del]

definition py_range :: "int \<Rightarrow> int \<Rightarrow> int \<Rightarrow> error + int list" where
  \<comment> \<open>the values that \<^verbatim>\<open>range(start, stop, step)\<close> yields\<close>
  "py_range start stop step =
     (if step = 0 then Inl RangeStepZero
      else if 0 < step then Inr (range_up start stop step)
      else Inr (range_down start stop step))"

subsection \<open>A single image\<close>

text \<open>
  The two nested \<^verbatim>\<open>for\<close> loops of \<^verbatim>\<open>split_image\<close>. The inner \<^verbatim>\<open>range\<close> is built once
  for every row offset, so a zero \<open>step_w\<close> raises only if there is a row.
\<close>

fun split_image_cols ::
  "tensor \<Rightarrow> int \<Rightarrow> int \<Rightarrow> int \<Rightarrow> int list \<Rightarrow> tile list \<Rightarrow> tile list" where
  "split_image_cols x crop_h crop_w i [] images = images"
| "split_image_cols x crop_h crop_w i (j # js) images =
     split_image_cols x crop_h crop_w i js (images @ [Crop x i j crop_h crop_w])"

fun split_image_rows ::
  "tensor \<Rightarrow> int \<Rightarrow> int \<Rightarrow> int \<Rightarrow> int \<Rightarrow> int list \<Rightarrow> tile list \<Rightarrow> error + tile list" where
  "split_image_rows x crop_h crop_w stop_w step_w [] images = Inr images"
| "split_image_rows x crop_h crop_w stop_w step_w (i # is) images =
     and_then (py_range 0 stop_w step_w) (\<lambda>cols.
       split_image_rows x crop_h crop_w stop_w step_w is
         (split_image_cols x crop_h crop_w i cols images))"

definition split_image :: "tensor \<Rightarrow> int \<Rightarrow> rat \<Rightarrow> error + tile list" where
  "split_image x max_size step_rate =
     (let h = height x; w = width x in
      if h > max_size \<or> w > max_size
      then
        let crop_h = min h max_size;
            crop_w = min w max_size;
            step_h = int_of_float (int_mul_float crop_h step_rate);
            step_w = int_of_float (int_mul_float crop_w step_rate)
        in and_then (py_range 0 (h - crop_h + 1) step_h) (\<lambda>rows.
             split_image_rows x crop_h crop_w (w - crop_w + 1) step_w rows [])
      else Inr [Whole x])"

subsection \<open>A pair\<close>

text \<open>
  The body of the inner loop of \<^verbatim>\<open>_pair_split_image\<close>. The conjuncts of the \<^verbatim>\<open>assert\<close>
  are evaluated from left to right and the first false one ends the evaluation; each
  of them divides by a scale, which raises for the scale \<open>0.0\<close>. The two
  \<^verbatim>\<open>append\<close>s compute the same four quotients again, with the same values.
\<close>

definition pair_split_tile ::
  "tensor \<Rightarrow> tensor \<Rightarrow> rat \<Rightarrow> rat \<Rightarrow> int \<Rightarrow> int \<Rightarrow> int \<Rightarrow> int \<Rightarrow> error + tile \<times> tile" where
  "pair_split_tile x y scale_h scale_w crop_h crop_w i j =
     and_then (int_div_float i scale_h) (\<lambda>qi.
       if i \<noteq> int_of_float (int_mul_float (int_of_float qi) scale_h) then Inl AssertionError
       else and_then (int_div_float j scale_w) (\<lambda>qj.
       if j \<noteq> int_of_float (int_mul_float (int_of_float qj) scale_w) then Inl AssertionError
       else and_then (int_div_float crop_h scale_h) (\<lambda>qh.
       if crop_h \<noteq> int_of_float (int_mul_float (int_of_float qh) scale_h) then Inl AssertionError
       else and_then (int_div_float crop_w scale_w) (\<lambda>qw.
       if crop_w \<noteq> int_of_float (int_mul_float (int_of_float qw) scale_w) then Inl AssertionError
       else Inr (Crop x i j crop_h crop_w,
                 Crop y (int_of_float qi) (int_of_float qj) (int_of_float qh) (int_of_float qw))))))"

fun pair_split_cols ::
  "tensor \<Rightarrow> tensor \<Rightarrow> rat \<Rightarrow> rat \<Rightarrow> int \<Rightarrow> int \<Rightarrow> int \<Rightarrow> int list \<Rightarrow>
   tile list \<times> tile list \<Rightarrow> error + tile list \<times> tile list" where
  "pair_split_cols x y scale_h scale_w crop_h crop_w i [] images = Inr images"
| "pair_split_cols x y scale_h scale_w crop_h crop_w i (j # js) images =
     and_then (pair_split_tile x y scale_h scale_w crop_h crop_w i j) (\<lambda>(tx, ty).
       pair_split_cols x y scale_h scale_w crop_h crop_w i js
         (fst images @ [tx], snd images @ [ty]))"

fun pair_split_rows ::
  "tensor \<Rightarrow> tensor \<Rightarrow> rat \<Rightarrow> rat \<Rightarrow> int \<Rightarrow> int \<Rightarrow> int \<Rightarrow> int \<Rightarrow> int list \<Rightarrow>
   tile list \<times> tile list \<Rightarrow> error + tile list \<times> tile list" where
  "pair_split_rows x y scale_h scale_w crop_h crop_w stop_w step_w [] images = Inr images"
| "pair_split_rows x y scale_h scale_w crop_h crop_w stop_w step_w (i # is) images =
     and_then (py_range 0 stop_w step_w) (\<lambda>cols.
     and_then (pair_split_cols x y scale_h scale_w crop_h crop_w i cols images) (\<lambda>images'.
       pair_split_rows x y scale_h scale_w crop_h crop_w stop_w step_w is images'))"

definition priv_pair_split_image ::
  "tensor \<Rightarrow> tensor \<Rightarrow> int \<Rightarrow> rat \<Rightarrow> error + tile list \<times> tile list" where
  \<comment> \<open>\<^verbatim>\<open>_pair_split_image(x, y, max_size, split_step)\<close>\<close>
  "priv_pair_split_image x y max_size split_step =
     (let xh = height x; xw = width x; yh = height y; yw = width y in
      and_then (int_truediv xh yh) (\<lambda>scale_h.
      and_then (int_truediv xw yw) (\<lambda>scale_w.
        if \<bar>float_sub scale_w scale_h\<bar> > scale_tolerance
        then Inl (UnpredictableScale xh xw yh yw)
        else if \<not> xh \<le> yh then Inl AssertionError
        else
          let lr_max_size = int_of_float (int_mul_float max_size scale_h);
              lxh = min xh lr_max_size;
              lxw = min xw lr_max_size
          in if xh \<noteq> lxh \<or> xw \<noteq> lxw
             then
               let crop_h = min xh lr_max_size;
                   crop_w = min xw lr_max_size;
                   step_h = int_of_float (int_mul_float crop_h split_step);
                   step_w = int_of_float (int_mul_float crop_w split_step)
               in and_then (py_range 0 (xh - crop_h + 1) step_h) (\<lambda>rows.
                    pair_split_rows x y scale_h scale_w crop_h crop_w (xw - crop_w + 1) step_w
                      rows ([], []))
             else Inr ([Whole x], [Whole y]))))"

definition pair_split_image ::
  "tensor \<Rightarrow> tensor \<Rightarrow> int \<Rightarrow> rat \<Rightarrow> error + tile list \<times> tile list" where
  "pair_split_image x y max_size split_step =
     (if height x \<le> height y
      then priv_pair_split_image x y max_size split_step
      else and_then (priv_pair_split_image y x max_size split_step)
             (\<lambda>(y_images, x_images). Inr (x_images, y_images)))"

section \<open>Collections of source files\<close>

text \<open>
  A collection is the \<^verbatim>\<open>defaultdict\<close> that the loaders fill: keys in insertion order, each
  with the dictionary \<^verbatim>\<open>{"src": src, "options": cols}\<close>. \<^verbatim>\<open>filename2key\<close>
  (\<^verbatim>\<open>nunif/utils\<close>) is not part of the sources at hand and is a parameter.
\<close>

record entry =
  src :: string
  options :: "string list"

type_synonym collection = "(string \<times> entry) list"

fun dict_set :: "'k \<Rightarrow> 'v \<Rightarrow> ('k \<times> 'v) list \<Rightarrow> ('k \<times> 'v) list" where
  \<comment> \<open>\<^verbatim>\<open>d[k] = v\<close>: a known key keeps its position\<close>
  "dict_set k v [] = [(k, v)]"
| "dict_set k v ((k', v') # d) =
     (if k' = k then (k, v) # d else (k', v') # dict_set k v d)"

definition list_getattr :: "string list \<Rightarrow> string \<Rightarrow> error + 'a" where
  \<comment> \<open>the attributes \<^verbatim>\<open>values\<close> and \<^verbatim>\<open>shift\<close> of a \<^verbatim>\<open>list\<close>: it has neither\<close>
  "list_getattr xs name = Inl (AttributeError name)"

fun load_files_from_csv_rows ::
  "(string \<Rightarrow> string) \<Rightarrow> string list list \<Rightarrow> collection \<Rightarrow> error + collection" where
  \<comment> \<open>the loop over the rows that \<^verbatim>\<open>csv.reader\<close> yields, each a \<^verbatim>\<open>list\<close> of strings\<close>
  "load_files_from_csv_rows filename2key [] data = Inr data"
| "load_files_from_csv_rows filename2key (row # rows) data =
     and_then (list_getattr row ''values'') (\<lambda>cols.
     and_then (list_getattr cols ''shift'') (\<lambda>src.
       let key = filename2key src
       in load_files_from_csv_rows filename2key rows
            (dict_set key \<lparr>src = src, options = cols\<rparr> data)))"

definition load_files_from_csv :: "(string \<Rightarrow> string) \<Rightarrow> string list list \<Rightarrow> error + collection" where
  \<comment> \<open>\<^verbatim>\<open>load_files_from_csv(txt)\<close>, on the rows of the file \<^verbatim>\<open>txt\<close>\<close>
  "load_files_from_csv filename2key rows = load_files_from_csv_rows filename2key rows []"

definition load_files_from_dir :: "(string \<Rightarrow> string) \<Rightarrow> string list \<Rightarrow> collection" where
  \<comment> \<open>\<^verbatim>\<open>load_files_from_dir(directory)\<close>, on the files that \<^verbatim>\<open>ImageLoader.listdir\<close> lists\<close>
  "load_files_from_dir filename2key files =
     foldl (\<lambda>data src. dict_set (filename2key src) \<lparr>src = src, options = []\<rparr> data) [] files"

section \<open>The conversion pipeline\<close>

text \<open>
  Modelled from the spec: the decoder (\<^verbatim>\<open>ImageLoader\<close>) is not part of the sources at hand. It
  yields, for a list of paths and in the order of that list, pairs of a decoded image
  and its metadata \<open>{filename, has_alpha}\<close>; \<^verbatim>\<open>"alpha" in meta\<close> is \<open>meta_alpha\<close>.
  \<^verbatim>\<open>TF.to_tensor\<close> keeps the height and the width, and the model identifies the decoded
  image with its tensor.
\<close>

record meta =
  meta_filename :: string
  meta_alpha :: bool

text \<open>The command line, as \<^verbatim>\<open>argparse\<close> returns it.\<close>

record args =
  args_input :: "string option"
  args_target :: string
  args_data_dir :: string
  args_max_size :: int
  args_split_image :: bool
  args_split_step :: rat
  args_pad_x :: int
  args_pad_y :: int
  args_zero_pad_x :: bool
  args_zero_pad_y :: bool
  args_grayscale_x :: bool
  args_grayscale_y :: bool

text \<open>
  What the program reads from outside: the file system, the listing and the rows of
  the source collections, the two uses of \<^verbatim>\<open>filename2key\<close> (with \<^verbatim>\<open>use_subdir=False\<close> in
  the loaders, with its default elsewhere) and the decoder.
\<close>

record env =
  isdir :: "string \<Rightarrow> bool"
  path_exists :: "string \<Rightarrow> bool"
  listdir :: "string \<Rightarrow> string list"
  csv_rows :: "string \<Rightarrow> string list list"
  filename2key :: "string \<Rightarrow> string"
  filename2key_no_subdir :: "string \<Rightarrow> string"
  image_loader :: "string list \<Rightarrow> (tensor \<times> meta) list"

text \<open>
  What the program does to the outside, in order: directories made and removed, text
  written to the standard output, and write tasks submitted to the pool
  (\<^verbatim>\<open>pool.submit(save_image_task, im, output_path)\<close>).
\<close>

datatype effect =
    Makedirs string
  | Rmtree string
  | Stdout string
  | Submit tile string

definition USE_SNAPPY_IMAGE :: bool where
  "USE_SNAPPY_IMAGE = True"

definition INPUT_DIR :: string where
  "INPUT_DIR = ''x''"

definition TARGET_DIR :: string where
  "TARGET_DIR = ''y''"

definition path_join :: "string \<Rightarrow> string \<Rightarrow> string" where
  \<comment> \<open>\<^verbatim>\<open>os.path.join(a, b)\<close> on POSIX\<close>
  "path_join a b =
     (if b \<noteq> [] \<and> hd b = CHR ''/'' then b
      else if a = [] \<or> last a = CHR ''/'' then a @ b
      else a @ ''/'' @ b)"

definition splitext_ext :: "string \<Rightarrow> string" where
  \<comment> \<open>\<^verbatim>\<open>os.path.splitext(p)[-1]\<close> on POSIX\<close>
  "splitext_ext p =
     (let base = rev (takeWhile (\<lambda>c. c \<noteq> CHR ''/'') (rev p));
          tail = rev (takeWhile (\<lambda>c. c \<noteq> CHR ''.'') (rev base));
          stem = take (length base - length tail - 1) base
      in if CHR ''.'' \<in> set base \<and> filter (\<lambda>c. c \<noteq> CHR ''.'') stem \<noteq> []
         then CHR ''.'' # tail else [])"

function decimal :: "nat \<Rightarrow> string" where
  "decimal n =
     (if n < 10 then [char_of (48 + n)]
      else decimal (n div 10) @ [char_of (48 + n mod 10)])"
  by pat_completeness auto
termination
  by (relation "measure id") auto

declare decimal.simps [simp del]

definition format_03d :: "int \<Rightarrow> string" where
  \<comment> \<open>the format \<^verbatim>\<open>{no:03d}\<close>\<close>
  "format_03d no =
     (if no < 0
      then CHR ''-'' # replicate (2 - length (decimal (nat (- no)))) CHR ''0'' @ decimal (nat (- no))
      else replicate (3 - length (decimal (nat no))) CHR ''0'' @ decimal (nat no))"

definition make_output_name :: "env \<Rightarrow> string \<Rightarrow> int \<Rightarrow> string" where
  \<comment> \<open>\<^verbatim>\<open>make_output_name(filename, no=-1)\<close>\<close>
  "make_output_name e fname no =
     (let basename = filename2key e fname;
          ext = (if USE_SNAPPY_IMAGE then ''sz'' else ''png'')
      in if no \<ge> 0 then basename @ ''.'' @ format_03d no @ ''.'' @ ext
         else basename @ ''.'' @ ext)"

definition skip_message :: "string \<Rightarrow> string" where
  \<comment> \<open>\<^verbatim>\<open>f"\nskip transparent png {filename}\n"\<close>\<close>
  "skip_message fname = ''\<newline>skip transparent png '' @ fname @ ''\<newline>''"

fun submit_pairs ::
  "env \<Rightarrow> string \<Rightarrow> string \<Rightarrow> string \<Rightarrow> string \<Rightarrow> (tile \<times> tile) list \<Rightarrow> int \<Rightarrow> effect list" where
  \<comment> \<open>the loop over \<^verbatim>\<open>zip(*pair_split_image(...))\<close>, with its counter \<^verbatim>\<open>no\<close>\<close>
  "submit_pairs e input_dir target_dir x_name y_name [] no = []"
| "submit_pairs e input_dir target_dir x_name y_name ((x, y) # tiles) no =
     Submit x (path_join input_dir (make_output_name e x_name no)) #
     Submit y (path_join target_dir (make_output_name e y_name no)) #
     submit_pairs e input_dir target_dir x_name y_name tiles (no + 1)"

fun submit_tiles :: "env \<Rightarrow> string \<Rightarrow> string \<Rightarrow> tile list \<Rightarrow> int \<Rightarrow> effect list" where
  \<comment> \<open>the loop over \<^verbatim>\<open>split_image(...)\<close>, with its counter \<^verbatim>\<open>no\<close>\<close>
  "submit_tiles e target_dir y_name [] no = []"
| "submit_tiles e target_dir y_name (y # tiles) no =
     Submit y (path_join target_dir (make_output_name e y_name no)) #
     submit_tiles e target_dir y_name tiles (no + 1)"

definition pad_and_grayscale :: "tensor \<Rightarrow> int \<Rightarrow> bool \<Rightarrow> bool \<Rightarrow> tensor" where
  \<comment> \<open>the padding and the grayscale conversion of one side\<close>
  "pad_and_grayscale t pad zero_pad grayscale =
     (let t = (if pad > 0 then Padded t (nat pad) zero_pad else t)
      in if grayscale then Grayscale t else t)"

definition convert_pair ::
  "env \<Rightarrow> args \<Rightarrow> string \<Rightarrow> string \<Rightarrow> (tensor \<times> meta) option \<Rightarrow> tensor \<times> meta \<Rightarrow>
   error + effect list" where
  \<comment> \<open>one iteration of the loop of \<^verbatim>\<open>convert_data\<close>: the effects of the iteration\<close>
  "convert_pair e a input_dir target_dir x_item y_item =
     (let y = fst y_item; y_meta = snd y_item in
      if meta_alpha y_meta then Inr [Stdout (skip_message (meta_filename y_meta))]
      else case x_item of
        Some (x, x_meta) \<Rightarrow>
          if filename2key e (meta_filename x_meta) \<noteq> filename2key e (meta_filename y_meta)
          then Inl AssertionError
          else if meta_alpha x_meta then Inr [Stdout (skip_message (meta_filename x_meta))]
          else
            let x = pad_and_grayscale x (args_pad_x a) (args_zero_pad_x a) (args_grayscale_x a);
                y = pad_and_grayscale y (args_pad_y a) (args_zero_pad_y a) (args_grayscale_y a)
            in if args_max_size a > 0
               then
                 if args_split_image a
                 then and_then (pair_split_image x y (args_max_size a) (args_split_step a))
                        (\<lambda>(x_images, y_images).
                          Inr (submit_pairs e input_dir target_dir
                                 (meta_filename x_meta) (meta_filename y_meta)
                                 (zip x_images y_images) 0))
                 else and_then (pair_crop_max x y (args_max_size a)) (\<lambda>(x', y').
                        Inr [Submit x' (path_join input_dir
                                          (make_output_name e (meta_filename x_meta) (- 1))),
                             Submit y' (path_join target_dir
                                          (make_output_name e (meta_filename y_meta) (- 1)))])
               else Inr [Submit (Whole x) (path_join input_dir
                                             (make_output_name e (meta_filename x_meta) (- 1))),
                         Submit (Whole y) (path_join target_dir
                                             (make_output_name e (meta_filename y_meta) (- 1)))]
      | None \<Rightarrow>
          let y = pad_and_grayscale y (args_pad_y a) (args_zero_pad_y a) (args_grayscale_y a)
          in if args_max_size a > 0
             then
               if args_split_image a
               then and_then (split_image y (args_max_size a) (args_split_step a)) (\<lambda>images.
                      Inr (submit_tiles e target_dir (meta_filename y_meta) images 0))
               else Inr [Submit (crop_max y (args_max_size a))
                           (path_join target_dir (make_output_name e (meta_filename y_meta) (- 1)))]
             else Inr [Submit (Whole y)
                         (path_join target_dir (make_output_name e (meta_filename y_meta) (- 1)))])"

fun convert_loop ::
  "env \<Rightarrow> args \<Rightarrow> string \<Rightarrow> string \<Rightarrow> ((tensor \<times> meta) option \<times> (tensor \<times> meta)) list \<Rightarrow>
   effect list \<Rightarrow> effect list \<times> (error + unit)" where
  \<comment> \<open>the loop over \<^verbatim>\<open>zip(x_loader, y_loader)\<close>: the effects so far, and how it ends\<close>
  "convert_loop e a input_dir target_dir [] trace = (trace, Inr ())"
| "convert_loop e a input_dir target_dir ((x_item, y_item) # items) trace =
     (case convert_pair e a input_dir target_dir x_item y_item of
        Inl err \<Rightarrow> (trace, Inl err)
      | Inr effects \<Rightarrow> convert_loop e a input_dir target_dir items (trace @ effects))"

type_synonym paired = "(string \<times> entry option \<times> entry) list"

fun x_sources :: "paired \<Rightarrow> error + string list" where
  \<comment> \<open>\<^verbatim>\<open>[data[k]["x"]["src"] for k in ...]\<close>\<close>
  "x_sources [] = Inr []"
| "x_sources ((k, None, y) # d) = Inl (KeyError ''x'')"
| "x_sources ((k, Some x, y) # d) = and_then (x_sources d) (\<lambda>files. Inr (src x # files))"

definition convert_data :: "env \<Rightarrow> paired \<Rightarrow> bool \<Rightarrow> args \<Rightarrow> effect list \<times> (error + unit)" where
  \<comment> \<open>the keys of \<open>data\<close> are distinct, so \<^verbatim>\<open>data[k]\<close> for \<^verbatim>\<open>k in sorted(data.keys())\<close> are
      the items of \<open>data\<close> sorted by their key\<close>
  "convert_data e data has_x a =
     (let input_dir = path_join (args_data_dir a) INPUT_DIR;
          target_dir = path_join (args_data_dir a) TARGET_DIR;
          trace = [Makedirs (args_data_dir a)]
                  @ (if path_exists e input_dir then [Rmtree input_dir] else [])
                  @ (if path_exists e target_dir then [Rmtree target_dir] else [])
                  @ [Makedirs target_dir]
                  @ (if has_x then [Makedirs input_dir] else []);
          sorted_data = sort_key fst data;
          y_files = map (\<lambda>(k, x, y). src y) sorted_data;
          y_loader = image_loader e y_files
      in if has_x
         then (case x_sources sorted_data of
                 Inl err \<Rightarrow> (trace, Inl err)
               | Inr x_files \<Rightarrow>
                   convert_loop e a input_dir target_dir
                     (zip (map Some (image_loader e x_files)) y_loader) trace)
         else convert_loop e a input_dir target_dir
                (zip (replicate (length y_files) None) y_loader) trace)"

datatype loaded = Unbound | Bound collection

definition load_collection :: "env \<Rightarrow> string \<Rightarrow> error + loaded" where
  \<comment> \<open>the \<^verbatim>\<open>if\<close>/\<^verbatim>\<open>elif\<close> of \<^verbatim>\<open>main\<close> that loads a collection; no branch binds the variable
      for a path that is neither a directory nor a \<^verbatim>\<open>.txt\<close> or \<^verbatim>\<open>.csv\<close> file\<close>
  "load_collection e p =
     (if isdir e p then Inr (Bound (load_files_from_dir (filename2key_no_subdir e) (listdir e p)))
      else if splitext_ext p = ''.txt'' \<or> splitext_ext p = ''.csv''
      then and_then (load_files_from_csv (filename2key_no_subdir e) (csv_rows e p))
             (\<lambda>data. Inr (Bound data))
      else Inr Unbound)"

fun validate :: "collection \<Rightarrow> loaded \<Rightarrow> paired \<Rightarrow> error + paired" where
  \<comment> \<open>the loop of \<^verbatim>\<open>main\<close> under \<^verbatim>\<open># validate\<close>\<close>
  "validate [] x_data data = Inr data"
| "validate ((y_key, y) # y_data) Unbound data = Inl (UnboundLocalError ''x_data'')"
| "validate ((y_key, y) # y_data) (Bound x_data) data =
     (case map_of x_data y_key of
        Some x \<Rightarrow> validate y_data (Bound x_data) (dict_set y_key (Some x, y) data)
      | None \<Rightarrow> Inl (RuntimeError (y_key @ '' does not exist on --x side'')))"

definition main :: "env \<Rightarrow> args \<Rightarrow> effect list \<times> (error + int)" where
  \<comment> \<open>\<^verbatim>\<open>main()\<close> after \<^verbatim>\<open>parser.parse_args()\<close>; the debug log of the arguments is left out\<close>
  "main e a =
     (if args_split_image a \<and> \<not> args_max_size a > 0
      then ([], Inl (ValueError ''--max-size is required for --split_image''))
      else if (args_pad_x a > 0 \<or> args_pad_y a > 0) \<and> args_max_size a > 0
      then ([], Inl (ValueError ''--pad-(x|y) with --max-size is not supported''))
      else if args_input a = None \<and> (args_pad_x a > 0 \<or> args_zero_pad_x a \<or> args_grayscale_x a)
      then ([], Inl (ValueError
        ''--input is not specified but --pad-x,--zero-pad-x, --grayscale_x are specified''))
      else
        case load_collection e (args_target a) of
          Inl err \<Rightarrow> ([], Inl err)
        | Inr y_data \<Rightarrow>
           (case args_input a of
              Some inp \<Rightarrow>
                (case load_collection e inp of
                   Inl err \<Rightarrow> ([], Inl err)
                 | Inr x_data \<Rightarrow>
                    (case y_data of
                       Unbound \<Rightarrow> ([], Inl (UnboundLocalError ''y_data''))
                     | Bound y_coll \<Rightarrow>
                        (case validate y_coll x_data [] of
                           Inl err \<Rightarrow> ([], Inl err)
                         | Inr data \<Rightarrow>
                            (case convert_data e data True a of
                               (trace, Inl err) \<Rightarrow> (trace, Inl err)
                             | (trace, Inr u) \<Rightarrow> (trace, Inr 0)))))
            | None \<Rightarrow>
                (case y_data of
                   Unbound \<Rightarrow> ([], Inl (UnboundLocalError ''y_data''))
                 | Bound y_coll \<Rightarrow>
                    (case convert_data e (map (\<lambda>(k, v). (k, None, v)) y_coll) False a of
                       (trace, Inl err) \<Rightarrow> (trace, Inl err)
                     | (trace, Inr u) \<Rightarrow> (trace, Inr 0)))))"

section \<open>The tiling, in the words of the specification\<close>

text \<open>
  The offsets of a sliding window step from \<open>0\<close> up to, but not past, the dimension minus
  the window size. An image within the maximal size is its own single tile; a larger one
  is tiled by the window \<open>min(h, max_size)\<close> by \<open>min(w, max_size)\<close> with the stride
  \<open>floor(window * step_rate)\<close> of each dimension, row by row.
\<close>

definition window_offsets :: "int \<Rightarrow> int \<Rightarrow> int \<Rightarrow> int list" where
  "window_offsets dimension window stride =
     map (\<lambda>k. int k * stride) [0..<nat ((dimension - window) div stride + 1)]"

definition spec_split_image :: "tensor \<Rightarrow> int \<Rightarrow> rat \<Rightarrow> tile list" where
  "spec_split_image x max_size step_rate =
     (if height x \<le> max_size \<and> width x \<le> max_size then [Whole x]
      else
        let window_h = min (height x) max_size;
            window_w = min (width x) max_size;
            stride_h = \<lfloor>int_mul_float window_h step_rate\<rfloor>;
            stride_w = \<lfloor>int_mul_float window_w step_rate\<rfloor>
        in concat (map (\<lambda>i. map (\<lambda>j. Crop x i j window_h window_w)
                                 (window_offsets (width x) window_w stride_w))
                       (window_offsets (height x) window_h stride_h)))"

section \<open>Notions used in the statements\<close>

text \<open>
  \<open>upscale n s\<close> is the expression \<^verbatim>\<open>int(n / s)\<close> by which the paired operations derive a
  high-resolution coordinate from a low-resolution one. \<open>is_scale_mismatch\<close> holds of the
  results that are the \<^verbatim>\<open>ValueError\<close> for an unpredictable scale.

  \<open>scaled_region lo hi t_lo t_hi\<close>: the tile \<open>t_lo\<close> is cut from \<open>lo\<close>, the tile \<open>t_hi\<close> from
  \<open>hi\<close>, and the region of \<open>t_hi\<close> is the region of \<open>t_lo\<close> scaled by the ratio of the two
  images: rows and heights by \<open>hi.h / lo.h\<close>, columns and widths by \<open>hi.w / lo.w\<close>, each
  written as an equation of integers.

  \<open>crop_round_trip r t_lo t_hi\<close>: the height of \<open>t_hi\<close> is the rounded product of the
  height of \<open>t_lo\<close> and the ratio \<open>r\<close>, dividing it by \<open>r\<close> gives the height of \<open>t_lo\<close> back,
  and likewise for the widths.
\<close>

definition upscale :: "int \<Rightarrow> rat \<Rightarrow> int" where
  "upscale n s = int_of_float (binary64 (float_of_int n / s))"

definition is_scale_mismatch :: "error + 'a \<Rightarrow> bool" where
  "is_scale_mismatch r =
     (case r of Inl (UnpredictableScale xh xw yh yw) \<Rightarrow> True | _ \<Rightarrow> False)"

definition scaled_region :: "tensor \<Rightarrow> tensor \<Rightarrow> tile \<Rightarrow> tile \<Rightarrow> bool" where
  "scaled_region lo hi t_lo t_hi =
     (tile_of t_lo = lo \<and> tile_of t_hi = hi \<and>
      tile_row t_hi * height lo = tile_row t_lo * height hi \<and>
      tile_height t_hi * height lo = tile_height t_lo * height hi \<and>
      tile_col t_hi * width lo = tile_col t_lo * width hi \<and>
      tile_width t_hi * width lo = tile_width t_lo * width hi)"

definition crop_round_trip :: "int \<Rightarrow> tile \<Rightarrow> tile \<Rightarrow> bool" where
  "crop_round_trip r t_lo t_hi =
     (tile_height t_hi = round (of_int (tile_height t_lo) * of_int r :: rat) \<and>
      tile_height t_hi div r = tile_height t_lo \<and>
      tile_width t_hi = round (of_int (tile_width t_lo) * of_int r :: rat) \<and>
      tile_width t_hi div r = tile_width t_lo)"

section \<open>Scenarios\<close>

text \<open>
  An environment with a target directory of two images and an input directory that lacks
  the second one, and two command lines without a maximal size.
\<close>

definition scenario_D_env :: env where
  "scenario_D_env =
     \<lparr>isdir = (\<lambda>p. True), path_exists = (\<lambda>p. False),
      listdir = (\<lambda>p. if p = ''target'' then [''a.png'', ''b.png''] else [''a.png'']),
      csv_rows = (\<lambda>p. []), filename2key = (\<lambda>s. s), filename2key_no_subdir = (\<lambda>s. s),
      image_loader = (\<lambda>files. [])\<rparr>"

definition scenario_D_args :: args where
  "scenario_D_args =
     \<lparr>args_input = Some ''input'', args_target = ''target'', args_data_dir = ''out'',
      args_max_size = 0, args_split_image = False, args_split_step = 1 / 2,
      args_pad_x = 0, args_pad_y = 0, args_zero_pad_x = False, args_zero_pad_y = False,
      args_grayscale_x = False, args_grayscale_y = False\<rparr>"

definition plain_args :: args where
  "plain_args =
     \<lparr>args_input = None, args_target = ''target'', args_data_dir = ''out'',
      args_max_size = 0, args_split_image = False, args_split_step = 1 / 2,
      args_pad_x = 0, args_pad_y = 0, args_zero_pad_x = False, args_zero_pad_y = False,
      args_grayscale_x = False, args_grayscale_y = False\<rparr>"

section \<open>Rounding errors\<close>

text \<open>
  Every rounding has a relative error of at most \<open>2^-53\<close>. It follows that scaling a
  coordinate \<open>i\<close> of the low-resolution side up by \<open>int(i / s)\<close> and back down by
  \<open>int(k * s)\<close>, for the float \<open>s = a / b\<close>, reproduces \<open>i\<close> only if \<open>k\<close> is exactly
  \<open>i * b / a\<close>.
\<close>

lemma bit_length_nonneg: "0 \<le> bit_length n"
proof (induction n rule: bit_length.induct)
  case (1 n)
  then show ?case by (subst bit_length.simps) auto
qed

lemma bit_length_pos: "0 < n \<Longrightarrow> 0 < bit_length n"
  using bit_length_nonneg [of "n div 2"] by (subst bit_length.simps) auto

lemma bit_length_bounds:
  "0 < n \<Longrightarrow> 2 ^ nat (bit_length n - 1) \<le> n \<and> n < 2 ^ nat (bit_length n)"
proof (induction n rule: bit_length.induct)
  case (1 n)
  show ?case
  proof (cases "n = 1")
    case True
    have "bit_length 1 = 1"
      by (subst bit_length.simps, subst bit_length.simps) simp
    with True show ?thesis by simp
  next
    case False
    with "1.prems" have pos: "0 < n div 2" by presburger
    from "1.prems" have ne: "\<not> n \<le> 0" by simp
    from "1.IH" [OF ne pos]
    have ih: "2 ^ nat (bit_length (n div 2) - 1) \<le> n div 2" "n div 2 < 2 ^ nat (bit_length (n div 2))"
      by auto
    have bl: "bit_length n = bit_length (n div 2) + 1"
      using ne by (subst bit_length.simps) simp
    have bp: "0 < bit_length (n div 2)"
      using pos by (rule bit_length_pos)
    then have e1: "nat (bit_length n - 1) = Suc (nat (bit_length (n div 2) - 1))"
      unfolding bl by simp
    have e2: "nat (bit_length n) = Suc (nat (bit_length (n div 2)))"
      unfolding bl using bp by (simp add: nat_add_distrib)
    show ?thesis
      unfolding e1 e2 using ih by (simp; presburger)
  qed
qed


lemma binade_le:
  assumes "q \<noteq> 0"
  shows "2 powi (binade q) \<le> \<bar>q\<bar>"
proof -
  obtain a b where ab: "quotient_of \<bar>q\<bar> = (a, b)"
    by (cases "quotient_of \<bar>q\<bar>") auto
  have b: "0 < b" using ab by (rule quotient_of_denom_pos)
  have q: "\<bar>q\<bar> = of_int a / of_int b" using ab by (rule quotient_of_div)
  from assms have "0 < \<bar>q\<bar>" by simp
  with q b have a: "0 < a" by (simp add: zero_less_divide_iff)
  define la where "la = bit_length a"
  define lb where "lb = bit_length b"
  have la: "0 < la" and lb: "0 < lb"
    using a b by (simp_all add: la_def lb_def bit_length_pos)
  have "2 ^ nat (la - 1) \<le> a" and "b < 2 ^ nat lb"
    using bit_length_bounds [OF a] bit_length_bounds [OF b] by (simp_all add: la_def lb_def)
  then have A: "(2::rat) ^ nat (la - 1) \<le> of_int a" and B: "of_int b \<le> (2::rat) ^ nat lb"
    by (metis of_int_le_iff of_int_numeral of_int_power, metis less_imp_le of_int_le_iff of_int_numeral of_int_power)
  have "(2::rat) powi (la - lb - 1) = 2 powi ((la - 1) - lb)"
    by (simp add: algebra_simps)
  also have "\<dots> = 2 powi (la - 1) / 2 powi lb"
    by (rule power_int_diff) simp
  also have "(2::rat) powi (la - 1) = 2 ^ nat (la - 1)"
    using la by (simp add: power_int_def)
  also have "(2::rat) powi lb = 2 ^ nat lb"
    using lb by (simp add: power_int_def)
  also have "(2::rat) ^ nat (la - 1) / 2 ^ nat lb \<le> of_int a / of_int b"
    using A B a b by (intro frac_le) auto
  finally have low: "2 powi (la - lb - 1) \<le> \<bar>q\<bar>"
    unfolding q .
  show ?thesis
    using low unfolding binade_def ab la_def lb_def by (simp add: Let_def)
qed

lemma round_half_even_error: "\<bar>of_int (round_half_even q) - q\<bar> \<le> 1 / 2"
proof -
  define f where "f = \<lfloor>q\<rfloor>"
  define d where "d = q - of_int f"
  have d: "0 \<le> d" "d < 1"
    unfolding d_def f_def by linarith+
  have r: "round_half_even q =
      (if d < 1 / 2 then f else if 1 / 2 < d then f + 1 else if even f then f else f + 1)"
    by (simp add: round_half_even_def Let_def f_def d_def)
  have "\<bar>of_int (round_half_even q) - q\<bar> =
      \<bar>of_int (if d < 1 / 2 then f else if 1 / 2 < d then f + 1
                else if even f then f else f + 1) - of_int f - d\<bar>"
    unfolding r by (simp add: d_def)
  also have "\<dots> \<le> 1 / 2"
    using d by auto
  finally show ?thesis .
qed

lemma binary64_error: "\<bar>binary64 q - q\<bar> \<le> \<bar>q\<bar> * unit_roundoff"
proof (cases "q = 0")
  case True
  then show ?thesis by (simp add: binary64_def)
next
  case False
  define ulp :: rat where "ulp = 2 powi (binade q - 52)"
  have ulp: "0 < ulp" by (simp add: ulp_def)
  have b: "binary64 q = of_int (round_half_even (q / ulp)) * ulp"
    using False by (simp add: binary64_def ulp_def Let_def)
  have "binary64 q - q = (of_int (round_half_even (q / ulp)) - q / ulp) * ulp"
    using ulp unfolding b by (simp add: algebra_simps)
  then have "\<bar>binary64 q - q\<bar> = \<bar>of_int (round_half_even (q / ulp)) - q / ulp\<bar> * ulp"
    using ulp by (simp add: abs_mult)
  also have "\<dots> \<le> 1 / 2 * ulp"
    using round_half_even_error [of "q / ulp"] ulp by (intro mult_right_mono) auto
  also have "1 / 2 * ulp = 2 powi (binade q) * unit_roundoff"
    by (simp add: ulp_def unit_roundoff_def power_int_diff)
  also have "\<dots> \<le> \<bar>q\<bar> * unit_roundoff"
    using binade_le [OF False] by (intro mult_right_mono) (auto simp: unit_roundoff_def)
  finally show ?thesis .
qed


lemma binary64_upper: "0 \<le> x \<Longrightarrow> binary64 x \<le> x * (1 + unit_roundoff)"
  using binary64_error [of x] by (simp add: algebra_simps abs_le_iff)

lemma binary64_lower: "0 \<le> x \<Longrightarrow> x * (1 - unit_roundoff) \<le> binary64 x"
  using binary64_error [of x] by (simp add: algebra_simps abs_le_iff)

lemma binary64_nonneg: "0 \<le> x \<Longrightarrow> 0 \<le> binary64 x"
proof -
  assume x: "0 \<le> x"
  have "0 \<le> x * (1 - unit_roundoff)"
    using x by (intro mult_nonneg_nonneg) (simp_all add: unit_roundoff_def)
  with binary64_lower [OF x] show ?thesis by simp
qed

lemma binary64_pos: "0 < x \<Longrightarrow> 0 < binary64 x"
proof -
  assume x: "0 < x"
  have "0 < x * (1 - unit_roundoff)"
    using x by (intro mult_pos_pos) (simp_all add: unit_roundoff_def)
  with binary64_lower [of x] x show ?thesis by simp
qed

lemma int_of_float_le: "0 \<le> q \<Longrightarrow> of_int (int_of_float q) \<le> q"
  by (simp add: int_of_float_def)

lemma int_of_float_nonneg: "0 \<le> q \<Longrightarrow> 0 \<le> int_of_float q"
  by (simp add: int_of_float_def)

lemma scale_round_trip:
  fixes a b i k :: int
  assumes a: "0 < a" and b: "0 < b" and i: "0 \<le> i" and small: "i * b < 2 ^ 51"
    and s: "s = binary64 (of_int a / of_int b)"
    and k: "k = int_of_float (binary64 (float_of_int i / s))"
    and rt: "i = int_of_float (int_mul_float k s)"
  shows "k * a = i * b"
proof -
  define u where "u = unit_roundoff"
  have u: "0 < u" "u < 1" by (simp_all add: u_def unit_roundoff_def)
  define r :: rat where "r = of_int a / of_int b"
  have r: "0 < r" using a b by (simp add: r_def)
  have s_pos: "0 < s" unfolding s using r unfolding r_def by (rule binary64_pos)
  have s': "s = binary64 r" by (simp add: s r_def)
  have s_lo: "r * (1 - u) \<le> s" and s_hi: "s \<le> r * (1 + u)"
    unfolding s' u_def using r
    by (intro binary64_lower binary64_upper, simp)+
  \<comment> \<open>forward: \<open>k \<le> i / s\<close> up to rounding\<close>
  define fi where "fi = float_of_int i"
  have fi: "0 \<le> fi" "fi \<le> of_int i * (1 + u)"
    unfolding fi_def float_of_int_def u_def using i
    by (simp_all add: binary64_nonneg binary64_upper)
  have q1: "0 \<le> fi / s" using fi s_pos by simp
  have "of_int k \<le> binary64 (fi / s)"
    unfolding k fi_def [symmetric] using q1 by (intro int_of_float_le binary64_nonneg)
  also have "\<dots> \<le> fi / s * (1 + u)"
    unfolding u_def using q1 by (rule binary64_upper)
  finally have "of_int k * s \<le> fi * (1 + u)"
    using s_pos by (simp add: field_simps)
  also have "\<dots> \<le> of_int i * (1 + u) * (1 + u)"
    using fi u by (intro mult_right_mono) auto
  finally have ks: "of_int k * s \<le> of_int i * (1 + u) * (1 + u)" .
  have k0: "0 \<le> k"
    unfolding k fi_def [symmetric] using q1 by (intro int_of_float_nonneg binary64_nonneg)
  have lo: "of_int k * (r * (1 - u)) \<le> of_int k * s"
    using s_lo k0 by (intro mult_left_mono) auto
  define c1 where "c1 = 1 - u"
  define c2 where "c2 = (1 + u) * (1 + u)"
  define c3 where "c3 = (1 + u) * (1 + u) * (1 + u)"
  from ks lo have F: "of_int k * r * c1 \<le> of_int i * c2"
    by (simp add: mult.assoc c1_def c2_def)
  \<comment> \<open>backward: \<open>i \<le> k * s\<close> up to rounding\<close>
  define fk where "fk = float_of_int k"
  have fk: "0 \<le> fk" "fk \<le> of_int k * (1 + u)"
    unfolding fk_def float_of_int_def u_def using k0
    by (simp_all add: binary64_nonneg binary64_upper)
  have q2: "0 \<le> fk * s" using fk s_pos by simp
  have "of_int i \<le> binary64 (fk * s)"
    using rt q2 unfolding int_mul_float_def fk_def [symmetric]
    by (metis int_of_float_le binary64_nonneg)
  also have "\<dots> \<le> fk * s * (1 + u)"
    unfolding u_def using q2 by (rule binary64_upper)
  also have "\<dots> \<le> of_int k * (1 + u) * s * (1 + u)"
    using fk s_pos u by (intro mult_right_mono) auto
  also have "\<dots> \<le> of_int k * (1 + u) * (r * (1 + u)) * (1 + u)"
    using s_hi k0 u by (intro mult_right_mono mult_left_mono mult_nonneg_nonneg) auto
  finally have B: "of_int i \<le> of_int k * r * c3"
    by (simp add: mult_ac c3_def)
  \<comment> \<open>in integers\<close>
  define M :: rat where "M = of_int (k * a)"
  define N :: rat where "N = of_int (i * b)"
  have bpos: "(0::rat) < of_int b" using b by simp
  have kr: "of_int k * r = M / of_int b"
    by (simp add: r_def M_def)
  have iN: "of_int i = N / of_int b"
    using b by (simp add: N_def)
  from F have F': "M * c1 \<le> N * c2"
    unfolding kr iN using bpos by (simp add: field_simps)
  from B have B': "N \<le> M * c3"
    unfolding kr iN using bpos by (simp add: field_simps)
  have Nb: "N < 2 ^ 51" "0 \<le> N"
    using small i b unfolding N_def
    by (metis of_int_less_iff of_int_numeral of_int_power, simp)
  have M0: "0 \<le> M" using k0 a by (simp add: M_def)
  have le: "M < N + 1"
    using F' Nb M0 unfolding c1_def c2_def u_def unit_roundoff_def by simp
  have ge: "N < M + 1"
    using B' Nb M0 unfolding c3_def u_def unit_roundoff_def by simp
  from le ge have "k * a < i * b + 1" "i * b < k * a + 1"
    unfolding M_def N_def by (metis of_int_1 of_int_add of_int_less_iff)+
  then show ?thesis by simp
qed

section \<open>Properties of \<^verbatim>\<open>pair_crop_max\<close>\<close>

lemma and_then_Inr [simp]: "and_then (Inr v) f = f v"
  by (simp add: and_then_def)

lemma and_then_Inl [simp]: "and_then (Inl e) f = Inl e"
  by (simp add: and_then_def)

lemma priv_pair_crop_max_unfold:
  assumes "height y \<noteq> 0" "width y \<noteq> 0"
    and "sh = binary64 (of_int (height x) / of_int (height y))"
    and "sw = binary64 (of_int (width x) / of_int (width y))"
    and "lr = int_of_float (int_mul_float max_size sh)"
    and "lxh = min (height x) lr" and "lxw = min (width x) lr"
  shows "priv_pair_crop_max x y max_size =
    (if \<bar>float_sub sw sh\<bar> > scale_tolerance
     then Inl (UnpredictableScale (height x) (width x) (height y) (width y))
     else if \<not> height x \<le> height y then Inl AssertionError
     else if lxh \<noteq> height x \<or> lxw \<noteq> width x
     then and_then (int_div_float lxh sh) (\<lambda>qh. and_then (int_div_float lxw sw) (\<lambda>qw.
             if lxh = int_of_float (int_mul_float (int_of_float qh) sh) \<and>
                lxw = int_of_float (int_mul_float (int_of_float qw) sw)
             then Inr (CropRef x 0 0 lxh lxw, CropRef y 0 0 (int_of_float qh) (int_of_float qw))
             else Inl AssertionError))
     else Inr (Whole x, Whole y))"
proof -
  have h: "int_truediv (height x) (height y) = Inr sh"
    using assms(1,3) by (simp add: int_truediv_def)
  have w: "int_truediv (width x) (width y) = Inr sw"
    using assms(2,4) by (simp add: int_truediv_def)
  show ?thesis
    unfolding priv_pair_crop_max_def Let_def h w and_then_Inr assms(6,7) assms(5)
    by (rule refl)
qed

lemma priv_pair_crop_max_zero:
  "height y = 0 \<or> width y = 0 \<Longrightarrow> priv_pair_crop_max x y max_size = Inl ZeroDivisionError"
  by (auto simp: priv_pair_crop_max_def and_then_def int_truediv_def Let_def)

section \<open>Properties of \<^verbatim>\<open>split_image\<close>\<close>

lemma range_up_closed:
  "0 < step \<Longrightarrow>
   range_up i stop step = map (\<lambda>k. i + int k * step) [0..<nat ((stop - i + step - 1) div step)]"
proof (induction i stop step rule: range_up.induct)
  case (1 i stop step)
  show ?case
  proof (cases "i < stop")
    case True
    define n where "n = nat ((stop - (i + step) + step - 1) div step)"
    have "stop - i + step - 1 = (stop - i - 1) + step"
      by simp
    then have "(stop - i + step - 1) div step = (stop - i - 1) div step + 1"
      using "1.prems" by (simp only: div_add_self2)
    moreover have "0 \<le> (stop - i - 1) div step"
      using True "1.prems" by (simp add: pos_imp_zdiv_nonneg_iff)
    ultimately have n: "nat ((stop - i + step - 1) div step) = Suc n"
      by (simp add: n_def nat_add_distrib algebra_simps)
    have "range_up i stop step = i # range_up (i + step) stop step"
      using True "1.prems" by (subst range_up.simps) simp
    also have "range_up (i + step) stop step = map (\<lambda>k. i + step + int k * step) [0..<n]"
      using "1.IH" True "1.prems" by (simp add: n_def)
    also have "i # map (\<lambda>k. i + step + int k * step) [0..<n] =
        map (\<lambda>k. i + int k * step) [0..<Suc n]"
      by (simp add: upt_conv_Cons map_Suc_upt [symmetric] algebra_simps del: upt_Suc)
    finally show ?thesis unfolding n .
  next
    case False
    then have "(stop - i + step - 1) div step \<le> (step - 1) div step"
      using "1.prems" by (intro zdiv_mono1) auto
    also have "(step - 1) div step = 0"
      using "1.prems" by (intro div_pos_pos_trivial) auto
    finally have "(stop - i + step - 1) div step \<le> 0" .
    moreover have "range_up i stop step = []"
      using False by (subst range_up.simps) simp
    ultimately show ?thesis by simp
  qed
qed

lemma range_up_offsets:
  assumes "0 < step" "0 \<le> d"
  shows "range_up 0 (d + 1) step = map (\<lambda>k. int k * step) [0..<nat (d div step + 1)]"
proof -
  have "d + 1 - 0 + step - 1 = d + step"
    by simp
  then have "(d + 1 - 0 + step - 1) div step = d div step + 1"
    using assms by (simp only: div_add_self2)
  then show ?thesis
    using range_up_closed [OF assms(1), of 0 "d + 1"] by simp
qed

lemma range_up_nonempty: "0 < step \<Longrightarrow> i < stop \<Longrightarrow> range_up i stop step \<noteq> []"
  by (subst range_up.simps) simp

lemma range_up_bounds: "k \<in> set (range_up i stop step) \<Longrightarrow> i \<le> k \<and> k < stop"
proof (induction i stop step rule: range_up.induct)
  case (1 i stop step)
  show ?case
  proof (cases "0 < step \<and> i < stop")
    case True
    with "1.prems" have "k = i \<or> k \<in> set (range_up (i + step) stop step)"
      by (subst (asm) range_up.simps) auto
    then show ?thesis
      using "1.IH" [OF True] True by auto
  next
    case False
    with "1.prems" show ?thesis by (subst (asm) range_up.simps) auto
  qed
qed

lemma split_image_cols_eq:
  "split_image_cols x crop_h crop_w i cols images =
     images @ map (\<lambda>j. Crop x i j crop_h crop_w) cols"
  by (induction cols arbitrary: images) simp_all

lemma split_image_rows_eq:
  assumes "py_range 0 stop_w step_w = Inr cols"
  shows "split_image_rows x crop_h crop_w stop_w step_w rows images =
     Inr (images @ concat (map (\<lambda>i. map (\<lambda>j. Crop x i j crop_h crop_w) cols) rows))"
  by (induction rows arbitrary: images) (simp_all add: assms split_image_cols_eq)

lemma split_image_rows_zero:
  "rows \<noteq> [] \<Longrightarrow>
   split_image_rows x crop_h crop_w stop_w 0 rows images = Inl RangeStepZero"
  by (cases rows) (simp_all add: py_range_def)

lemma split_image_unfold:
  assumes "height x > max_size \<or> width x > max_size"
    and "crop_h = min (height x) max_size" "crop_w = min (width x) max_size"
    and "step_h = int_of_float (int_mul_float crop_h step_rate)"
    and "step_w = int_of_float (int_mul_float crop_w step_rate)"
  shows "split_image x max_size step_rate =
     and_then (py_range 0 (height x - crop_h + 1) step_h) (\<lambda>rows.
       split_image_rows x crop_h crop_w (width x - crop_w + 1) step_w rows [])"
  using assms(1) unfolding split_image_def Let_def assms(4,5) assms(2,3) by simp

lemma int_of_float_floor: "0 \<le> \<lfloor>q\<rfloor> \<Longrightarrow> int_of_float q = \<lfloor>q\<rfloor>"
  by (auto simp: int_of_float_def)

lemma split_image_tiles:
  assumes big: "height x > max_size \<or> width x > max_size"
    and sh: "1 \<le> \<lfloor>int_mul_float (min (height x) max_size) step_rate\<rfloor>"
    and sw: "1 \<le> \<lfloor>int_mul_float (min (width x) max_size) step_rate\<rfloor>"
  shows "split_image x max_size step_rate = Inr (spec_split_image x max_size step_rate)"
proof -
  define crop_h where "crop_h = min (height x) max_size"
  define crop_w where "crop_w = min (width x) max_size"
  define step_h where "step_h = int_of_float (int_mul_float crop_h step_rate)"
  define step_w where "step_w = int_of_float (int_mul_float crop_w step_rate)"
  have fh: "step_h = \<lfloor>int_mul_float crop_h step_rate\<rfloor>"
    unfolding step_h_def crop_h_def using sh by (intro int_of_float_floor) simp
  have fw: "step_w = \<lfloor>int_mul_float crop_w step_rate\<rfloor>"
    unfolding step_w_def crop_w_def using sw by (intro int_of_float_floor) simp
  have ph: "0 < step_h" and pw: "0 < step_w"
    using sh sw unfolding fh fw crop_h_def crop_w_def by simp_all
  have dh: "0 \<le> height x - crop_h" and dw: "0 \<le> width x - crop_w"
    by (simp_all add: crop_h_def crop_w_def)
  have rows: "py_range 0 (height x - crop_h + 1) step_h =
      Inr (window_offsets (height x) crop_h step_h)"
    using ph range_up_offsets [OF ph dh] by (simp add: py_range_def window_offsets_def)
  have cols: "py_range 0 (width x - crop_w + 1) step_w =
      Inr (window_offsets (width x) crop_w step_w)"
    using pw range_up_offsets [OF pw dw] by (simp add: py_range_def window_offsets_def)
  have "split_image x max_size step_rate =
      Inr (concat (map (\<lambda>i. map (\<lambda>j. Crop x i j crop_h crop_w)
                                 (window_offsets (width x) crop_w step_w))
                       (window_offsets (height x) crop_h step_h)))"
    unfolding split_image_unfold [OF big crop_h_def crop_w_def step_h_def step_w_def] rows
    by (simp add: split_image_rows_eq [OF cols])
  also have "concat (map (\<lambda>i. map (\<lambda>j. Crop x i j crop_h crop_w)
                                 (window_offsets (width x) crop_w step_w))
                       (window_offsets (height x) crop_h step_h)) =
      spec_split_image x max_size step_rate"
    using big unfolding spec_split_image_def Let_def fh fw crop_h_def crop_w_def by auto
  finally show ?thesis .
qed

lemma split_image_small:
  "height x \<le> max_size \<Longrightarrow> width x \<le> max_size \<Longrightarrow>
   split_image x max_size step_rate = Inr (spec_split_image x max_size step_rate)"
  by (simp add: split_image_def spec_split_image_def)


lemma scenario_C_strides: "\<lfloor>int_mul_float 100 (1 / 2)\<rfloor> = 50"
  by code_simp

lemma scenario_C_offsets: "window_offsets 300 100 50 = [0, 50, 100, 150, 200]"
  by code_simp

lemma scenario_C:
  "split_image (Decoded name 300 300) 100 (1 / 2) =
     Inr (concat (map (\<lambda>i. map (\<lambda>j. Crop (Decoded name 300 300) i j 100 100)
                                 [0, 50, 100, 150, 200])
                       [0, 50, 100, 150, 200]))"
proof -
  have "split_image (Decoded name 300 300) 100 (1 / 2) =
      Inr (spec_split_image (Decoded name 300 300) 100 (1 / 2))"
    by (rule split_image_tiles) (simp_all add: scenario_C_strides)
  then show ?thesis
    by (simp add: spec_split_image_def scenario_C_strides scenario_C_offsets)
qed

text \<open>
  Claim C6, as the code has it. An image with both dimensions within the maximal size is
  returned as the only tile. An image with a dimension beyond it, and computed strides of
  at least one in both dimensions, is tiled as the specification says: the window is
  \<open>min(h, max_size)\<close> by \<open>min(w, max_size)\<close>, the stride of a dimension is the floor of
  the float product of its window size and the step rate, the offsets step from \<open>0\<close> up to
  the dimension minus the window size, and the tiles come row by row. An image of 300 by
  300 with the maximal size 100 and the step rate 0.5 gives the 25 tiles of 100 by 100 at
  the row and column offsets 0, 50, 100, 150 and 200.
\<close>

theorem split_image_windows:
  "(height x \<le> max_size \<and> width x \<le> max_size \<longrightarrow>
      split_image x max_size step_rate = Inr [Whole x]) \<and>
   ((height x > max_size \<or> width x > max_size) \<and>
    1 \<le> \<lfloor>int_mul_float (min (height x) max_size) step_rate\<rfloor> \<and>
    1 \<le> \<lfloor>int_mul_float (min (width x) max_size) step_rate\<rfloor> \<longrightarrow>
      split_image x max_size step_rate = Inr (spec_split_image x max_size step_rate)) \<and>
   split_image (Decoded name 300 300) 100 (1 / 2) =
     Inr (concat (map (\<lambda>i. map (\<lambda>j. Crop (Decoded name 300 300) i j 100 100)
                                 [0, 50, 100, 150, 200])
                       [0, 50, 100, 150, 200]))"
  using split_image_tiles [of max_size x step_rate] scenario_C [of name]
  by (simp add: split_image_def)

theorem split_image_windows_witness:
  "(height (Decoded ''y'' 300 300) > 100 \<or> width (Decoded ''y'' 300 300) > 100) \<and>
   1 \<le> \<lfloor>int_mul_float (min (height (Decoded ''y'' 300 300)) 100) (1 / 2)\<rfloor> \<and>
   1 \<le> \<lfloor>int_mul_float (min (width (Decoded ''y'' 300 300)) 100) (1 / 2)\<rfloor> \<and>
   split_image (Decoded ''y'' 300 300) 100 (1 / 2) =
     Inr (spec_split_image (Decoded ''y'' 300 300) 100 (1 / 2)) \<and>
   length (spec_split_image (Decoded ''y'' 300 300) 100 (1 / 2)) = 25"
proof -
  have h: "(height (Decoded ''y'' 300 300) > 100 \<or> width (Decoded ''y'' 300 300) > 100) \<and>
   1 \<le> \<lfloor>int_mul_float (min (height (Decoded ''y'' 300 300)) 100) (1 / 2)\<rfloor> \<and>
   1 \<le> \<lfloor>int_mul_float (min (width (Decoded ''y'' 300 300)) 100) (1 / 2)\<rfloor>"
    by (simp add: scenario_C_strides)
  have l: "length (spec_split_image (Decoded ''y'' 300 300) 100 (1 / 2)) = 25"
    by (simp add: spec_split_image_def scenario_C_strides scenario_C_offsets)
  from split_image_windows [of "Decoded ''y'' 300 300" 100 "1 / 2" "''y''"] h l
  show ?thesis by blast
qed


text \<open>
  Without the strides of at least one the tiling is not returned: an image of 300 by 1
  with the maximal size 100 and the step rate 0.5 has a height beyond the maximal size and
  the window 100 by 1; the stride of its width is \<open>int(1 * 0.5) = 0\<close>, and \<^verbatim>\<open>split_image\<close>
  raises the \<^verbatim>\<open>ValueError\<close> of \<^verbatim>\<open>range\<close>.
\<close>

theorem split_image_windows_counterexample:
  "height (Decoded ''y'' 300 1) > 100 \<and>
   \<lfloor>int_mul_float (min (width (Decoded ''y'' 300 1)) 100) (1 / 2)\<rfloor> = 0 \<and>
   split_image (Decoded ''y'' 300 1) 100 (1 / 2) = Inl RangeStepZero"
  by code_simp

section \<open>Signs of rounded values\<close>

lemma binary64_zero [simp]: "binary64 0 = 0"
  by (simp add: binary64_def)

lemma binary64_neg: "x < 0 \<Longrightarrow> binary64 x < 0"
proof -
  assume x: "x < 0"
  have "binary64 x \<le> x + \<bar>x\<bar> * unit_roundoff"
    using binary64_error [of x] by (simp add: abs_le_iff algebra_simps)
  also have "\<dots> = x * (1 - unit_roundoff)"
    using x by (simp add: algebra_simps)
  also have "\<dots> < 0"
    using x by (intro mult_neg_pos) (simp_all add: unit_roundoff_def)
  finally show ?thesis .
qed

lemma binary64_pos_iff: "0 < binary64 x \<longleftrightarrow> 0 < x"
proof (cases "x = 0")
  case True
  then show ?thesis by simp
next
  case False
  then consider "x < 0" | "0 < x" by linarith
  then show ?thesis
    using binary64_pos [of x] binary64_neg [of x] by cases auto
qed

lemma binary64_eq_0_iff: "binary64 x = 0 \<longleftrightarrow> x = 0"
proof (cases "x = 0")
  case True
  then show ?thesis by simp
next
  case False
  then consider "x < 0" | "0 < x" by linarith
  then show ?thesis
    using binary64_pos [of x] binary64_neg [of x] by cases auto
qed

lemma float_of_int_pos_iff: "0 < float_of_int n \<longleftrightarrow> 0 < n"
  by (simp add: float_of_int_def binary64_pos_iff)

lemma float_of_int_eq_0_iff: "float_of_int n = 0 \<longleftrightarrow> n = 0"
  by (simp add: float_of_int_def binary64_eq_0_iff)

lemma float_of_int_neg_iff: "float_of_int n < 0 \<longleftrightarrow> n < 0"
  using float_of_int_pos_iff [of n] float_of_int_eq_0_iff [of n] by linarith

lemma int_mul_float_pos_iff:
  "0 < int_mul_float n r \<longleftrightarrow> (0 < n \<and> 0 < r) \<or> (n < 0 \<and> r < 0)"
  by (simp add: int_mul_float_def binary64_pos_iff zero_less_mult_iff
      float_of_int_pos_iff float_of_int_neg_iff)

lemma int_mul_float_eq_0_iff: "int_mul_float n r = 0 \<longleftrightarrow> n = 0 \<or> r = 0"
  by (simp add: int_mul_float_def binary64_eq_0_iff float_of_int_eq_0_iff)

lemma int_of_float_zero: "\<lfloor>q\<rfloor> = 0 \<Longrightarrow> int_of_float q = 0"
proof -
  assume "\<lfloor>q\<rfloor> = 0"
  then have "0 \<le> q" by (metis floor_less_zero not_le less_irrefl)
  with \<open>\<lfloor>q\<rfloor> = 0\<close> show ?thesis by (simp add: int_of_float_def)
qed

lemma int_of_float_pos: "0 < q \<Longrightarrow> int_of_float q \<noteq> 0 \<Longrightarrow> 0 < int_of_float q"
proof -
  assume q: "0 < q" and nz: "int_of_float q \<noteq> 0"
  from q have e: "int_of_float q = \<lfloor>q\<rfloor>" by (simp add: int_of_float_def)
  from q have "0 \<le> \<lfloor>q\<rfloor>" by simp
  with nz show ?thesis unfolding e by linarith
qed

lemma int_of_float_nonzero: "int_of_float q \<noteq> 0 \<Longrightarrow> q \<noteq> 0"
  by (auto simp: int_of_float_def)

lemma zero_stride_w:
  assumes h: "0 < h" and w: "0 < w"
    and sw: "\<lfloor>int_mul_float (min w m) r\<rfloor> = 0"
    and sh: "int_of_float (int_mul_float (min h m) r) \<noteq> 0"
  shows "0 < int_of_float (int_mul_float (min h m) r)"
proof -
  from sh have nz: "int_mul_float (min h m) r \<noteq> 0" by (rule int_of_float_nonzero)
  then have ch: "min h m \<noteq> 0" and r: "r \<noteq> 0"
    by (simp_all add: int_mul_float_eq_0_iff)
  from ch h have m: "m \<noteq> 0" by (auto simp: min_def split: if_splits)
  with w have cw: "min w m \<noteq> 0" by (auto simp: min_def split: if_splits)
  with r have "int_mul_float (min w m) r \<noteq> 0" by (simp add: int_mul_float_eq_0_iff)
  moreover from sw have "0 \<le> int_mul_float (min w m) r"
    by (metis floor_less_zero not_le less_irrefl)
  ultimately have "0 < int_mul_float (min w m) r" by simp
  then have "(0 < min w m \<and> 0 < r) \<or> (min w m < 0 \<and> r < 0)"
    by (simp add: int_mul_float_pos_iff)
  with h w have "(0 < min h m \<and> 0 < r) \<or> (min h m < 0 \<and> r < 0)"
    by (auto simp: min_def split: if_splits)
  then have "0 < int_mul_float (min h m) r"
    by (simp add: int_mul_float_pos_iff)
  then show ?thesis using sh by (rule int_of_float_pos)
qed

lemma split_image_zero_stride:
  assumes pos: "0 < height x" "0 < width x"
    and big: "height x > max_size \<or> width x > max_size"
    and zero: "\<lfloor>int_mul_float (min (height x) max_size) step_rate\<rfloor> = 0 \<or>
               \<lfloor>int_mul_float (min (width x) max_size) step_rate\<rfloor> = 0"
  shows "split_image x max_size step_rate = Inl RangeStepZero"
proof -
  define crop_h where "crop_h = min (height x) max_size"
  define crop_w where "crop_w = min (width x) max_size"
  define step_h where "step_h = int_of_float (int_mul_float crop_h step_rate)"
  define step_w where "step_w = int_of_float (int_mul_float crop_w step_rate)"
  note unfold = split_image_unfold [OF big crop_h_def crop_w_def step_h_def step_w_def]
  show ?thesis
  proof (cases "step_h = 0")
    case True
    then show ?thesis unfolding unfold by (simp add: py_range_def)
  next
    case False
    with zero have zw: "\<lfloor>int_mul_float (min (width x) max_size) step_rate\<rfloor> = 0"
      unfolding step_h_def crop_h_def using int_of_float_zero by blast
    then have sw: "step_w = 0"
      unfolding step_w_def crop_w_def by (rule int_of_float_zero)
    have ph: "0 < step_h"
      unfolding step_h_def crop_h_def
      using pos zw False [unfolded step_h_def crop_h_def] by (rule zero_stride_w)
    have "0 < height x - crop_h + 1" by (simp add: crop_h_def)
    with ph have "range_up 0 (height x - crop_h + 1) step_h \<noteq> []"
      by (intro range_up_nonempty)
    then show ?thesis
      unfolding unfold using ph by (simp add: py_range_def sw split_image_rows_zero)
  qed
qed


section \<open>Properties of the collections and of the pipeline\<close>

text \<open>
  Claim C9, on the code. The loader of a delimited list file raises on the first row of
  every file that has a row: the row that \<^verbatim>\<open>csv.reader\<close> yields is a \<^verbatim>\<open>list\<close>, and
  \<^verbatim>\<open>row.values\<close> is not an attribute of a \<^verbatim>\<open>list\<close>. No mapping is returned.
\<close>

theorem load_files_from_csv_raises:
  "load_files_from_csv key_of (row # rows) = Inl (AttributeError ''values'')"
  by (simp add: load_files_from_csv_def list_getattr_def)

lemma validate_missing:
  assumes "y_key \<in> fst ` set y_data" and "map_of x_data y_key = None"
  shows "\<exists>k. k \<in> fst ` set y_data \<and> map_of x_data k = None \<and>
    validate y_data (Bound x_data) data = Inl (RuntimeError (k @ '' does not exist on --x side''))"
  using assms
proof (induction y_data arbitrary: data)
  case Nil
  then show ?case by simp
next
  case (Cons p y_data)
  obtain k y where p: "p = (k, y)" by (cases p)
  show ?case
  proof (cases "map_of x_data k")
    case None
    then show ?thesis unfolding p by (intro exI [of _ k]) simp
  next
    case (Some x)
    with Cons.prems have "y_key \<in> fst ` set y_data" unfolding p by auto
    from Cons.IH [OF this Cons.prems(2), of "dict_set k (Some x, y) data"]
    show ?thesis unfolding p using Some by auto
  qed
qed

text \<open>
  Claim C7. When the command line is accepted, both collections are loaded and some key of
  the target collection is not a key of the input collection, \<^verbatim>\<open>main\<close> ends with the
  \<^verbatim>\<open>RuntimeError\<close> that names such a key, and it has made or removed no directory, written
  nothing and submitted no tile.
\<close>

theorem main_missing_pair:
  assumes config: "\<not> (args_split_image a \<and> \<not> args_max_size a > 0)"
      "\<not> ((args_pad_x a > 0 \<or> args_pad_y a > 0) \<and> args_max_size a > 0)"
    and target: "load_collection e (args_target a) = Inr (Bound y_data)"
    and input: "args_input a = Some inp" "load_collection e inp = Inr (Bound x_data)"
    and missing: "y_key \<in> fst ` set y_data" "map_of x_data y_key = None"
  shows "\<exists>k. k \<in> fst ` set y_data \<and> map_of x_data k = None \<and>
    main e a = ([], Inl (RuntimeError (k @ '' does not exist on --x side'')))"
proof -
  from validate_missing [OF missing, of "[]"] obtain k where
    k: "k \<in> fst ` set y_data" "map_of x_data k = None"
       "validate y_data (Bound x_data) [] = Inl (RuntimeError (k @ '' does not exist on --x side''))"
    by blast
  have "main e a = ([], Inl (RuntimeError (k @ '' does not exist on --x side'')))"
    using config target input k(3) by (simp add: main_def)
  with k(1,2) show ?thesis by blast
qed

theorem main_missing_pair_witness:
  "main scenario_D_env scenario_D_args =
     ([], Inl (RuntimeError ''b.png does not exist on --x side''))"
proof -
  let ?a = "\<lparr>src = ''a.png'', options = []\<rparr>"
  let ?b = "\<lparr>src = ''b.png'', options = []\<rparr>"
  have t: "load_collection scenario_D_env (args_target scenario_D_args) =
      Inr (Bound [(''a.png'', ?a), (''b.png'', ?b)])"
    by (simp add: load_collection_def scenario_D_env_def scenario_D_args_def
        load_files_from_dir_def)
  have i: "args_input scenario_D_args = Some ''input''"
    by (simp add: scenario_D_args_def)
  have x: "load_collection scenario_D_env ''input'' = Inr (Bound [(''a.png'', ?a)])"
    by (simp add: load_collection_def scenario_D_env_def load_files_from_dir_def)
  have c: "\<not> (args_split_image scenario_D_args \<and> \<not> args_max_size scenario_D_args > 0)"
    "\<not> ((args_pad_x scenario_D_args > 0 \<or> args_pad_y scenario_D_args > 0) \<and>
        args_max_size scenario_D_args > 0)"
    by (simp_all add: scenario_D_args_def)
  have m: "''b.png'' \<in> fst ` set [(''a.png'', ?a), (''b.png'', ?b)]"
    "map_of [(''a.png'', ?a)] ''b.png'' = None"
    by simp_all
  from main_missing_pair [OF c t i x m] obtain k where
    k: "k \<in> fst ` set [(''a.png'', ?a), (''b.png'', ?b)]" "map_of [(''a.png'', ?a)] k = None"
    and r: "main scenario_D_env scenario_D_args =
      ([], Inl (RuntimeError (k @ '' does not exist on --x side'')))"
    by blast
  from k have "k = ''b.png''" by (auto split: if_splits)
  with r show ?thesis by simp
qed

lemma convert_loop_append:
  "convert_loop e a input_dir target_dir (pre @ post) trace =
     (case convert_loop e a input_dir target_dir pre trace of
        (t, Inl err) \<Rightarrow> (t, Inl err)
      | (t, Inr u) \<Rightarrow> convert_loop e a input_dir target_dir post t)"
proof (induction pre arbitrary: trace)
  case Nil
  then show ?case by simp
next
  case (Cons p pre)
  obtain x_item y_item where p: "p = (x_item, y_item)" by (cases p)
  show ?case
    unfolding p by (cases "convert_pair e a input_dir target_dir x_item y_item") (simp_all add: Cons.IH)
qed

lemma convert_pair_alpha:
  assumes "meta_alpha y_meta \<or>
     (\<exists>x x_meta. x_item = Some (x, x_meta) \<and> meta_alpha x_meta \<and>
        filename2key e (meta_filename x_meta) = filename2key e (meta_filename y_meta))"
  shows "\<exists>fname. convert_pair e a input_dir target_dir x_item (y, y_meta) =
     Inr [Stdout (skip_message fname)]"
  using assms by (auto simp: convert_pair_def Let_def)

text \<open>
  Claim C8. A pair whose target carries an alpha channel, or whose input does (the two
  files having the same key), adds one diagnostic to the standard output and submits no
  write; the loop goes on with the pairs after it.
\<close>

theorem convert_loop_skips_alpha:
  assumes "meta_alpha y_meta \<or>
     (\<exists>x x_meta. x_item = Some (x, x_meta) \<and> meta_alpha x_meta \<and>
        filename2key e (meta_filename x_meta) = filename2key e (meta_filename y_meta))"
  shows "\<exists>fname. convert_loop e a input_dir target_dir (pre @ (x_item, (y, y_meta)) # post) trace =
     (case convert_loop e a input_dir target_dir pre trace of
        (t, Inl err) \<Rightarrow> (t, Inl err)
      | (t, Inr u) \<Rightarrow>
          convert_loop e a input_dir target_dir post (t @ [Stdout (skip_message fname)]))"
proof -
  from convert_pair_alpha [OF assms] obtain fname where
    "convert_pair e a input_dir target_dir x_item (y, y_meta) = Inr [Stdout (skip_message fname)]"
    by blast
  then have "convert_loop e a input_dir target_dir (pre @ (x_item, (y, y_meta)) # post) trace =
     (case convert_loop e a input_dir target_dir pre trace of
        (t, Inl err) \<Rightarrow> (t, Inl err)
      | (t, Inr u) \<Rightarrow>
          convert_loop e a input_dir target_dir post (t @ [Stdout (skip_message fname)]))"
    unfolding convert_loop_append [of e a input_dir target_dir pre]
    by (auto split: prod.splits sum.splits)
  then show ?thesis by blast
qed


theorem convert_loop_skips_alpha_witness:
  "convert_loop scenario_D_env plain_args ''out/x'' ''out/y''
     ([] @ (None, (Decoded ''t.png'' 4 4, \<lparr>meta_filename = ''t.png'', meta_alpha = True\<rparr>)) #
      [(None, (Decoded ''u.png'' 4 4, \<lparr>meta_filename = ''u.png'', meta_alpha = False\<rparr>))]) [] =
     ([Stdout (skip_message ''t.png''), Submit (Whole (Decoded ''u.png'' 4 4)) ''out/y/u.png.sz''],
      Inr ())"
proof -
  have h: "meta_alpha \<lparr>meta_filename = ''t.png'', meta_alpha = True\<rparr> \<or>
     (\<exists>x x_meta. (None :: (tensor \<times> meta) option) = Some (x, x_meta) \<and> meta_alpha x_meta \<and>
        filename2key scenario_D_env (meta_filename x_meta) =
        filename2key scenario_D_env (meta_filename \<lparr>meta_filename = ''t.png'', meta_alpha = True\<rparr>))"
    by simp
  from convert_loop_skips_alpha [OF h, of plain_args "''out/x''" "''out/y''" "[]"
      "Decoded ''t.png'' 4 4"
      "[(None, (Decoded ''u.png'' 4 4, \<lparr>meta_filename = ''u.png'', meta_alpha = False\<rparr>))]" "[]"]
  show ?thesis
    by (simp add: convert_pair_def plain_args_def scenario_D_env_def pad_and_grayscale_def
        make_output_name_def path_join_def USE_SNAPPY_IMAGE_def)
qed


section \<open>Properties of \<^verbatim>\<open>pair_split_image\<close>\<close>

lemma priv_pair_split_image_unfold:
  assumes "height y \<noteq> 0" "width y \<noteq> 0"
    and "sh = binary64 (of_int (height x) / of_int (height y))"
    and "sw = binary64 (of_int (width x) / of_int (width y))"
    and "lr = int_of_float (int_mul_float max_size sh)"
    and "crop_h = min (height x) lr" and "crop_w = min (width x) lr"
    and "step_h = int_of_float (int_mul_float crop_h split_step)"
    and "step_w = int_of_float (int_mul_float crop_w split_step)"
  shows "priv_pair_split_image x y max_size split_step =
    (if \<bar>float_sub sw sh\<bar> > scale_tolerance
     then Inl (UnpredictableScale (height x) (width x) (height y) (width y))
     else if \<not> height x \<le> height y then Inl AssertionError
     else if height x \<noteq> crop_h \<or> width x \<noteq> crop_w
     then and_then (py_range 0 (height x - crop_h + 1) step_h) (\<lambda>rows.
            pair_split_rows x y sh sw crop_h crop_w (width x - crop_w + 1) step_w rows ([], []))
     else Inr ([Whole x], [Whole y]))"
proof -
  have h: "int_truediv (height x) (height y) = Inr sh"
    using assms(1,3) by (simp add: int_truediv_def)
  have w: "int_truediv (width x) (width y) = Inr sw"
    using assms(2,4) by (simp add: int_truediv_def)
  show ?thesis
    unfolding priv_pair_split_image_def Let_def h w and_then_Inr assms(8,9) assms(6,7) assms(5)
    by (rule refl)
qed

lemma priv_pair_split_image_zero:
  "height y = 0 \<or> width y = 0 \<Longrightarrow>
   priv_pair_split_image x y max_size split_step = Inl ZeroDivisionError"
  by (auto simp: priv_pair_split_image_def and_then_def int_truediv_def Let_def)

lemma pair_split_tile_Inr:
  assumes "pair_split_tile x y sh sw crop_h crop_w i j = Inr (tx, ty)"
  shows "sh \<noteq> 0" "sw \<noteq> 0"
    "tx = Crop x i j crop_h crop_w"
    "ty = Crop y (upscale i sh) (upscale j sw) (upscale crop_h sh) (upscale crop_w sw)"
    "i = int_of_float (int_mul_float (upscale i sh) sh)"
    "j = int_of_float (int_mul_float (upscale j sw) sw)"
    "crop_h = int_of_float (int_mul_float (upscale crop_h sh) sh)"
    "crop_w = int_of_float (int_mul_float (upscale crop_w sw) sw)"
  using assms
  by (auto simp: pair_split_tile_def and_then_def int_div_float_def upscale_def
      split: if_splits)

lemma pair_split_tile_Inl:
  assumes "pair_split_tile x y sh sw crop_h crop_w i j = Inl e"
  shows "e = ZeroDivisionError \<or> e = AssertionError"
  using assms
  by (auto simp: pair_split_tile_def and_then_def int_div_float_def split: if_splits)

lemma pair_split_cols_Inr:
  assumes "pair_split_cols x y sh sw crop_h crop_w i cols (xs, ys) = Inr (xs', ys')"
  shows "xs' = xs @ map (\<lambda>j. Crop x i j crop_h crop_w) cols \<and>
    ys' = ys @ map (\<lambda>j. Crop y (upscale i sh) (upscale j sw) (upscale crop_h sh)
                           (upscale crop_w sw)) cols \<and>
    (\<forall>j \<in> set cols. \<exists>ty. pair_split_tile x y sh sw crop_h crop_w i j =
                               Inr (Crop x i j crop_h crop_w, ty))"
  using assms
proof (induction cols arbitrary: xs ys)
  case Nil
  then show ?case by simp
next
  case (Cons j cols)
  from Cons.prems obtain tx ty where
    t: "pair_split_tile x y sh sw crop_h crop_w i j = Inr (tx, ty)"
    and r: "pair_split_cols x y sh sw crop_h crop_w i cols (xs @ [tx], ys @ [ty]) = Inr (xs', ys')"
    by (auto simp: and_then_def split: sum.splits)
  from Cons.IH [OF r] pair_split_tile_Inr(3,4) [OF t] t show ?case by auto
qed

lemma pair_split_cols_Inl:
  assumes "pair_split_cols x y sh sw crop_h crop_w i cols images = Inl e"
  shows "e = ZeroDivisionError \<or> e = AssertionError"
  using assms
proof (induction cols arbitrary: images)
  case Nil
  then show ?case by simp
next
  case (Cons j cols)
  show ?case
  proof (cases "pair_split_tile x y sh sw crop_h crop_w i j")
    case (Inl e')
    with Cons.prems have "e = e'" by simp
    with Inl show ?thesis by (auto dest: pair_split_tile_Inl)
  next
    case (Inr t)
    with Cons.prems Cons.IH show ?thesis by (cases t) auto
  qed
qed

lemma pair_split_rows_Inr:
  assumes "pair_split_rows x y sh sw crop_h crop_w stop_w step_w rows (xs, ys) = Inr (xs', ys')"
    and "rows \<noteq> []"
  shows "\<exists>cols. py_range 0 stop_w step_w = Inr cols \<and>
    xs' = xs @ concat (map (\<lambda>i. map (\<lambda>j. Crop x i j crop_h crop_w) cols) rows) \<and>
    ys' = ys @ concat (map (\<lambda>i. map (\<lambda>j. Crop y (upscale i sh) (upscale j sw)
                                  (upscale crop_h sh) (upscale crop_w sw)) cols) rows) \<and>
    (\<forall>i \<in> set rows. \<forall>j \<in> set cols. \<exists>ty. pair_split_tile x y sh sw crop_h crop_w i j =
                               Inr (Crop x i j crop_h crop_w, ty))"
  using assms
proof (induction rows arbitrary: xs ys)
  case Nil
  then show ?case by simp
next
  case (Cons i rows)
  from Cons.prems(1) obtain cols xs1 ys1 where
    c: "py_range 0 stop_w step_w = Inr cols"
    and i: "pair_split_cols x y sh sw crop_h crop_w i cols (xs, ys) = Inr (xs1, ys1)"
    and r: "pair_split_rows x y sh sw crop_h crop_w stop_w step_w rows (xs1, ys1) = Inr (xs', ys')"
    by (auto simp: and_then_def split: sum.splits)
  note ci = pair_split_cols_Inr [OF i]
  show ?case
  proof (cases "rows = []")
    case True
    with r have "xs' = xs1" "ys' = ys1" by simp_all
    with ci c True show ?thesis by auto
  next
    case False
    from Cons.IH [OF r False] c ci show ?thesis by auto
  qed
qed

lemma pair_split_rows_Inl:
  assumes "pair_split_rows x y sh sw crop_h crop_w stop_w step_w rows images = Inl e"
  shows "e = ZeroDivisionError \<or> e = AssertionError \<or> e = RangeStepZero"
  using assms
proof (induction rows arbitrary: images)
  case Nil
  then show ?case by simp
next
  case (Cons i rows)
  show ?case
  proof (cases "py_range 0 stop_w step_w")
    case (Inl e')
    with Cons.prems have "e = e'" by simp
    with Inl show ?thesis by (auto simp: py_range_def split: if_splits)
  next
    case (Inr cols)
    show ?thesis
    proof (cases "pair_split_cols x y sh sw crop_h crop_w i cols images")
      case (Inl e')
      with Cons.prems Inr have "e = e'" by simp
      with Inl show ?thesis by (auto dest: pair_split_cols_Inl)
    next
      case (Inr images')
      with Cons.prems \<open>py_range 0 stop_w step_w = Inr cols\<close> Cons.IH show ?thesis by auto
    qed
  qed
qed

lemma pair_split_rows_zero:
  "rows \<noteq> [] \<Longrightarrow>
   pair_split_rows x y sh sw crop_h crop_w stop_w 0 rows images = Inl RangeStepZero"
  by (cases rows) (simp_all add: py_range_def)


lemma priv_pair_split_image_low_res:
  assumes "priv_pair_split_image x y max_size split_step = Inr (xs, ys)"
  shows "split_image x
           (int_of_float (int_mul_float max_size
              (binary64 (of_int (height x) / of_int (height y))))) split_step = Inr xs"
proof -
  define sh where "sh = binary64 (of_int (height x) / of_int (height y))"
  define sw where "sw = binary64 (of_int (width x) / of_int (width y))"
  define lr where "lr = int_of_float (int_mul_float max_size sh)"
  define crop_h where "crop_h = min (height x) lr"
  define crop_w where "crop_w = min (width x) lr"
  define step_h where "step_h = int_of_float (int_mul_float crop_h split_step)"
  define step_w where "step_w = int_of_float (int_mul_float crop_w split_step)"
  from assms have nz: "height y \<noteq> 0" "width y \<noteq> 0"
    using priv_pair_split_image_zero [of y x max_size split_step] by auto
  note unfold = priv_pair_split_image_unfold
    [OF nz sh_def sw_def lr_def crop_h_def crop_w_def step_h_def step_w_def]
  show ?thesis
  proof (cases "height x \<noteq> crop_h \<or> width x \<noteq> crop_w")
    case False
    with assms have "xs = [Whole x]"
      unfolding unfold by (simp split: if_splits)
    moreover from False have "\<not> (height x > lr \<or> width x > lr)"
      by (auto simp: crop_h_def crop_w_def)
    ultimately show ?thesis
      unfolding sh_def [symmetric] lr_def [symmetric] by (simp add: split_image_def)
  next
    case True
    then have big: "height x > lr \<or> width x > lr"
      by (auto simp: crop_h_def crop_w_def)
    from assms True obtain rows where
      rows: "py_range 0 (height x - crop_h + 1) step_h = Inr rows"
      and loop: "pair_split_rows x y sh sw crop_h crop_w (width x - crop_w + 1) step_w rows
                   ([], []) = Inr (xs, ys)"
      unfolding unfold by (auto simp: and_then_def split: if_splits sum.splits)
    have "split_image_rows x crop_h crop_w (width x - crop_w + 1) step_w rows [] = Inr xs"
    proof (cases "rows = []")
      case True
      with loop show ?thesis by simp
    next
      case False
      from pair_split_rows_Inr [OF loop False] obtain cols where
        "py_range 0 (width x - crop_w + 1) step_w = Inr cols"
        "xs = [] @ concat (map (\<lambda>i. map (\<lambda>j. Crop x i j crop_h crop_w) cols) rows)"
        by blast
      then show ?thesis by (simp add: split_image_rows_eq)
    qed
    then show ?thesis
      unfolding sh_def [symmetric] lr_def [symmetric]
        split_image_unfold [OF big crop_h_def crop_w_def step_h_def step_w_def] rows
      by simp
  qed
qed

text \<open>
  Claim C2, as the code has it. For every pair that \<^verbatim>\<open>pair_split_image\<close> accepts, with \<open>lo\<close>
  the side of the smaller (or equal) height and \<open>hi\<close> the other one, the low-resolution
  tiles are exactly the tiles that \<^verbatim>\<open>split_image\<close> produces from the low-resolution image
  alone with the same step rate and with the maximal size \<open>int(max_size * scale_h)\<close>, for the
  float \<open>scale_h = lo.h / hi.h\<close>: same window, same strides, same order, same count.
\<close>

theorem pair_split_image_low_res:
  assumes "pair_split_image x y max_size split_step = Inr (x_images, y_images)"
  shows "let (lo, hi, lo_images) =
               (if height x \<le> height y then (x, y, x_images) else (y, x, y_images));
             lr_max_size = int_of_float (int_mul_float max_size
                             (binary64 (of_int (height lo) / of_int (height hi))))
         in split_image lo lr_max_size split_step = Inr lo_images"
proof (cases "height x \<le> height y")
  case True
  with assms have "priv_pair_split_image x y max_size split_step = Inr (x_images, y_images)"
    by (simp add: pair_split_image_def)
  from priv_pair_split_image_low_res [OF this] True show ?thesis
    by (simp add: Let_def)
next
  case False
  with assms have "priv_pair_split_image y x max_size split_step = Inr (y_images, x_images)"
    by (auto simp: pair_split_image_def and_then_def split: sum.splits)
  from priv_pair_split_image_low_res [OF this] False show ?thesis
    by (simp add: Let_def)
qed

theorem pair_split_image_low_res_witness:
  "pair_split_image (Decoded ''in'' 4 2) (Decoded ''tg'' 8 4) 4 1 =
     Inr ([Crop (Decoded ''in'' 4 2) 0 0 2 2, Crop (Decoded ''in'' 4 2) 2 0 2 2],
          [Crop (Decoded ''tg'' 8 4) 0 0 4 4, Crop (Decoded ''tg'' 8 4) 4 0 4 4]) \<and>
   (let (lo, hi, lo_images) =
          (if height (Decoded ''in'' 4 2) \<le> height (Decoded ''tg'' 8 4)
           then (Decoded ''in'' 4 2, Decoded ''tg'' 8 4,
                 [Crop (Decoded ''in'' 4 2) 0 0 2 2, Crop (Decoded ''in'' 4 2) 2 0 2 2])
           else (Decoded ''tg'' 8 4, Decoded ''in'' 4 2,
                 [Crop (Decoded ''tg'' 8 4) 0 0 4 4, Crop (Decoded ''tg'' 8 4) 4 0 4 4]));
        lr_max_size = int_of_float (int_mul_float 4
                        (binary64 (of_int (height lo) / of_int (height hi))))
    in split_image lo lr_max_size 1 = Inr lo_images)"
proof -
  have h: "pair_split_image (Decoded ''in'' 4 2) (Decoded ''tg'' 8 4) 4 1 =
     Inr ([Crop (Decoded ''in'' 4 2) 0 0 2 2, Crop (Decoded ''in'' 4 2) 2 0 2 2],
          [Crop (Decoded ''tg'' 8 4) 0 0 4 4, Crop (Decoded ''tg'' 8 4) 4 0 4 4])"
    by code_simp
  show ?thesis
    by (rule conjI [OF h pair_split_image_low_res [OF h]])
qed


text \<open>
  With the maximal size itself the tiles differ: for a low-resolution image of 2 by 1, a
  high-resolution image of 4 by 2, the maximal size 2 and the step rate 1, the pair is
  split into two low-resolution tiles of 1 by 1, and \<^verbatim>\<open>split_image\<close> of the low-resolution
  image with the maximal size 2 returns the image itself.
\<close>

theorem pair_split_image_low_res_counterexample:
  "pair_split_image (Decoded ''x'' 2 1) (Decoded ''y'' 4 2) 2 1 =
     Inr ([Crop (Decoded ''x'' 2 1) 0 0 1 1, Crop (Decoded ''x'' 2 1) 1 0 1 1],
          [Crop (Decoded ''y'' 4 2) 0 0 2 2, Crop (Decoded ''y'' 4 2) 2 0 2 2])
   \<and> split_image (Decoded ''x'' 2 1) 2 1 = Inr [Whole (Decoded ''x'' 2 1)]"
  by code_simp


section \<open>The scale test\<close>

lemma is_scale_mismatch_simps [simp]:
  "is_scale_mismatch (Inl (UnpredictableScale a b c d))"
  "\<not> is_scale_mismatch (Inl ZeroDivisionError)"
  "\<not> is_scale_mismatch (Inl AssertionError)"
  "\<not> is_scale_mismatch (Inl RangeStepZero)"
  "\<not> is_scale_mismatch (Inr v)"
  by (simp_all add: is_scale_mismatch_def)

lemma is_scale_mismatch_and_then_Inr [simp]:
  "is_scale_mismatch (and_then m (\<lambda>v. Inr (f v))) = is_scale_mismatch m"
  by (cases m) (simp_all add: is_scale_mismatch_def)

lemma priv_pair_crop_max_mismatch:
  assumes "height y \<noteq> 0" "width y \<noteq> 0"
    and "sh = binary64 (of_int (height x) / of_int (height y))"
    and "sw = binary64 (of_int (width x) / of_int (width y))"
  shows "(\<bar>float_sub sw sh\<bar> > scale_tolerance \<longrightarrow>
            priv_pair_crop_max x y max_size =
              Inl (UnpredictableScale (height x) (width x) (height y) (width y))) \<and>
         (\<not> \<bar>float_sub sw sh\<bar> > scale_tolerance \<longrightarrow>
            \<not> is_scale_mismatch (priv_pair_crop_max x y max_size))"
proof -
  define lr where "lr = int_of_float (int_mul_float max_size sh)"
  define lxh where "lxh = min (height x) lr"
  define lxw where "lxw = min (width x) lr"
  note unfold = priv_pair_crop_max_unfold [OF assms lr_def lxh_def lxw_def]
  show ?thesis
    unfolding unfold
    by (auto simp: and_then_def int_div_float_def split: sum.splits)
qed

lemma priv_pair_split_image_mismatch:
  assumes "height y \<noteq> 0" "width y \<noteq> 0"
    and "sh = binary64 (of_int (height x) / of_int (height y))"
    and "sw = binary64 (of_int (width x) / of_int (width y))"
  shows "(\<bar>float_sub sw sh\<bar> > scale_tolerance \<longrightarrow>
            priv_pair_split_image x y max_size split_step =
              Inl (UnpredictableScale (height x) (width x) (height y) (width y))) \<and>
         (\<not> \<bar>float_sub sw sh\<bar> > scale_tolerance \<longrightarrow>
            \<not> is_scale_mismatch (priv_pair_split_image x y max_size split_step))"
proof -
  define lr where "lr = int_of_float (int_mul_float max_size sh)"
  define crop_h where "crop_h = min (height x) lr"
  define crop_w where "crop_w = min (width x) lr"
  define step_h where "step_h = int_of_float (int_mul_float crop_h split_step)"
  define step_w where "step_w = int_of_float (int_mul_float crop_w split_step)"
  note unfold = priv_pair_split_image_unfold
    [OF assms lr_def crop_h_def crop_w_def step_h_def step_w_def]
  have loop: "\<not> is_scale_mismatch
      (pair_split_rows x y sh sw crop_h crop_w (width x - crop_w + 1) step_w rows ([], []))"
    for rows
  proof (cases "pair_split_rows x y sh sw crop_h crop_w (width x - crop_w + 1) step_w rows ([], [])")
    case (Inl e)
    from pair_split_rows_Inl [OF this] show ?thesis unfolding Inl by auto
  next
    case (Inr v)
    then show ?thesis by simp
  qed
  have range: "\<not> is_scale_mismatch
      (and_then (py_range 0 (height x - crop_h + 1) step_h) (\<lambda>rows.
         pair_split_rows x y sh sw crop_h crop_w (width x - crop_w + 1) step_w rows ([], [])))"
    using loop by (cases "py_range 0 (height x - crop_h + 1) step_h")
      (auto simp: py_range_def split: if_splits)
  show ?thesis
    unfolding unfold using range by auto
qed

lemma is_scale_mismatch_swap [simp]:
  "is_scale_mismatch (and_then m (\<lambda>(a, b). Inr (b, a))) = is_scale_mismatch m"
  by (cases m) (simp_all add: is_scale_mismatch_def split: prod.splits)

text \<open>
  Claim C3, as the code has it. The scales that are compared are those of the low-resolution
  side over the high-resolution side, \<open>scale_h = lo.h / hi.h\<close> and \<open>scale_w = lo.w / hi.w\<close>
  as floats, \<open>lo\<close> being the side of the smaller (or equal) height. For images that are not
  empty: when the float \<open>|scale_w - scale_h|\<close> exceeds the float \<open>0.00001\<close>, both
  \<^verbatim>\<open>pair_crop_max\<close> and \<^verbatim>\<open>pair_split_image\<close> raise the \<^verbatim>\<open>ValueError\<close> for an unpredictable
  scale; when it does not, neither of them raises it.
\<close>

theorem scale_mismatch_iff:
  assumes "0 < height x" "0 < width x" "0 < height y" "0 < width y"
  shows
    "let (lo, hi) = (if height x \<le> height y then (x, y) else (y, x));
         scale_h = binary64 (of_int (height lo) / of_int (height hi));
         scale_w = binary64 (of_int (width lo) / of_int (width hi))
     in (\<bar>float_sub scale_w scale_h\<bar> > scale_tolerance \<longrightarrow>
           pair_crop_max x y max_size =
             Inl (UnpredictableScale (height lo) (width lo) (height hi) (width hi)) \<and>
           pair_split_image x y max_size split_step =
             Inl (UnpredictableScale (height lo) (width lo) (height hi) (width hi))) \<and>
        (\<not> \<bar>float_sub scale_w scale_h\<bar> > scale_tolerance \<longrightarrow>
           \<not> is_scale_mismatch (pair_crop_max x y max_size) \<and>
           \<not> is_scale_mismatch (pair_split_image x y max_size split_step))"
proof (cases "height x \<le> height y")
  case True
  have nz: "height y \<noteq> 0" "width y \<noteq> 0" using assms by simp_all
  from True priv_pair_crop_max_mismatch [OF nz refl refl, of x max_size]
    priv_pair_split_image_mismatch [OF nz refl refl, of x max_size split_step]
  show ?thesis
    by (simp add: Let_def pair_crop_max_def pair_split_image_def)
next
  case False
  have nz: "height x \<noteq> 0" "width x \<noteq> 0" using assms by simp_all
  from False priv_pair_crop_max_mismatch [OF nz refl refl, of y max_size]
    priv_pair_split_image_mismatch [OF nz refl refl, of y max_size split_step]
  show ?thesis
    by (simp add: Let_def pair_crop_max_def pair_split_image_def)
qed

theorem scale_mismatch_iff_witness:
  "pair_crop_max (Decoded ''x'' 10 10) (Decoded ''y'' 400 401) 100 =
     Inl (UnpredictableScale 10 10 400 401) \<and>
   pair_split_image (Decoded ''x'' 10 10) (Decoded ''y'' 400 401) 100 (1 / 2) =
     Inl (UnpredictableScale 10 10 400 401)"
proof -
  let ?x = "Decoded ''x'' 10 10" and ?y = "Decoded ''y'' 400 401"
  have p: "0 < height ?x" "0 < width ?x" "0 < height ?y" "0 < width ?y"
    by simp_all
  have le: "height ?x \<le> height ?y"
    by simp
  have c: "\<bar>float_sub (binary64 (of_int (height ?x) / of_int (height ?y)))
             (binary64 (of_int (width ?x) / of_int (width ?y)))\<bar> > scale_tolerance
           \<and> \<bar>float_sub (binary64 (of_int (width ?x) / of_int (width ?y)))
             (binary64 (of_int (height ?x) / of_int (height ?y)))\<bar> > scale_tolerance"
    by code_simp
  from scale_mismatch_iff [OF p, of 100 "1 / 2"] c
  have "pair_crop_max ?x ?y 100 =
          Inl (UnpredictableScale (height ?x) (width ?x) (height ?y) (width ?y)) \<and>
        pair_split_image ?x ?y 100 (1 / 2) =
          Inl (UnpredictableScale (height ?x) (width ?x) (height ?y) (width ?y))"
    by (simp only: Let_def le if_True split_conv)
  then show ?thesis by simp
qed


text \<open>
  The ratios of the high-resolution side over the low-resolution side do not decide the
  test: for a low-resolution image of 10 by 10 and a high-resolution image of 10000 by
  10010 they differ by 1, and the pair is cropped.
\<close>

theorem scale_mismatch_counterexample:
  "\<bar>(10010 / 10 - 10000 / 10 :: rat)\<bar> > 1 / 100000 \<and>
   pair_crop_max (Decoded ''x'' 10 10) (Decoded ''y'' 10000 10010) 5000 =
     Inr (CropRef (Decoded ''x'' 10 10) 0 0 5 5, CropRef (Decoded ''y'' 10000 10010) 0 0 5000 5005)"
  by code_simp


section \<open>Strides of zero\<close>

lemma priv_pair_split_image_zero_stride:
  assumes pos: "0 < height x" "0 < width x" "height y \<noteq> 0" "width y \<noteq> 0"
    and le: "height x \<le> height y"
    and sh: "sh = binary64 (of_int (height x) / of_int (height y))"
    and sw: "sw = binary64 (of_int (width x) / of_int (width y))"
    and lr: "lr = int_of_float (int_mul_float max_size sh)"
    and ok: "\<not> \<bar>float_sub sw sh\<bar> > scale_tolerance"
    and big: "height x > lr \<or> width x > lr"
    and zero: "\<lfloor>int_mul_float (min (height x) lr) split_step\<rfloor> = 0 \<or>
               \<lfloor>int_mul_float (min (width x) lr) split_step\<rfloor> = 0"
  shows "priv_pair_split_image x y max_size split_step = Inl RangeStepZero"
proof -
  define crop_h where "crop_h = min (height x) lr"
  define crop_w where "crop_w = min (width x) lr"
  define step_h where "step_h = int_of_float (int_mul_float crop_h split_step)"
  define step_w where "step_w = int_of_float (int_mul_float crop_w split_step)"
  from big have crop: "height x \<noteq> crop_h \<or> width x \<noteq> crop_w"
    by (auto simp: crop_h_def crop_w_def)
  have unfold: "priv_pair_split_image x y max_size split_step =
      and_then (py_range 0 (height x - crop_h + 1) step_h) (\<lambda>rows.
        pair_split_rows x y sh sw crop_h crop_w (width x - crop_w + 1) step_w rows ([], []))"
    unfolding priv_pair_split_image_unfold
      [OF pos(3,4) sh sw lr crop_h_def crop_w_def step_h_def step_w_def]
    using ok le crop by simp
  show ?thesis
  proof (cases "step_h = 0")
    case True
    then show ?thesis unfolding unfold by (simp add: py_range_def)
  next
    case False
    with zero have zw: "\<lfloor>int_mul_float (min (width x) lr) split_step\<rfloor> = 0"
      unfolding step_h_def crop_h_def using int_of_float_zero by blast
    then have sw0: "step_w = 0"
      unfolding step_w_def crop_w_def by (rule int_of_float_zero)
    have ph: "0 < step_h"
      unfolding step_h_def crop_h_def
      using pos(1,2) zw False [unfolded step_h_def crop_h_def] by (rule zero_stride_w)
    have "0 < height x - crop_h + 1" by (simp add: crop_h_def)
    with ph have "range_up 0 (height x - crop_h + 1) step_h \<noteq> []"
      by (intro range_up_nonempty)
    then show ?thesis
      unfolding unfold using ph by (simp add: py_range_def sw0 pair_split_rows_zero)
  qed
qed

text \<open>
  Claim C10. For an image that is not empty and has a dimension beyond the maximal size,
  \<^verbatim>\<open>split_image\<close> raises the \<^verbatim>\<open>ValueError\<close> of \<^verbatim>\<open>range\<close> when the floor of the float product
  of the window size and of the step rate is zero in one of the dimensions. So does
  \<^verbatim>\<open>pair_split_image\<close>, for a pair that passes the scale test and whose low-resolution image
  is beyond its bound \<open>int(max_size * scale_h)\<close>.
\<close>

theorem zero_stride_fails:
  "(0 < height x \<and> 0 < width x \<and> (height x > max_size \<or> width x > max_size) \<and>
    (\<lfloor>int_mul_float (min (height x) max_size) step_rate\<rfloor> = 0 \<or>
     \<lfloor>int_mul_float (min (width x) max_size) step_rate\<rfloor> = 0) \<longrightarrow>
    split_image x max_size step_rate = Inl RangeStepZero) \<and>
   (let scale_h = binary64 (of_int (height x) / of_int (height y));
        scale_w = binary64 (of_int (width x) / of_int (width y));
        lr_max_size = int_of_float (int_mul_float max_size scale_h)
    in 0 < height x \<and> 0 < width x \<and> 0 < width y \<and> height x \<le> height y \<and>
       \<not> \<bar>float_sub scale_w scale_h\<bar> > scale_tolerance \<and>
       (height x > lr_max_size \<or> width x > lr_max_size) \<and>
       (\<lfloor>int_mul_float (min (height x) lr_max_size) step_rate\<rfloor> = 0 \<or>
        \<lfloor>int_mul_float (min (width x) lr_max_size) step_rate\<rfloor> = 0) \<longrightarrow>
       pair_split_image x y max_size step_rate = Inl RangeStepZero)"
proof (intro conjI)
  show "0 < height x \<and> 0 < width x \<and> (height x > max_size \<or> width x > max_size) \<and>
    (\<lfloor>int_mul_float (min (height x) max_size) step_rate\<rfloor> = 0 \<or>
     \<lfloor>int_mul_float (min (width x) max_size) step_rate\<rfloor> = 0) \<longrightarrow>
    split_image x max_size step_rate = Inl RangeStepZero"
    using split_image_zero_stride [of x max_size step_rate] by blast
next
  define sh where "sh = binary64 (of_int (height x) / of_int (height y))"
  define sw where "sw = binary64 (of_int (width x) / of_int (width y))"
  define lr where "lr = int_of_float (int_mul_float max_size sh)"
  have "0 < height x \<and> 0 < width x \<and> 0 < width y \<and> height x \<le> height y \<and>
       \<not> \<bar>float_sub sw sh\<bar> > scale_tolerance \<and>
       (height x > lr \<or> width x > lr) \<and>
       (\<lfloor>int_mul_float (min (height x) lr) step_rate\<rfloor> = 0 \<or>
        \<lfloor>int_mul_float (min (width x) lr) step_rate\<rfloor> = 0) \<longrightarrow>
       pair_split_image x y max_size step_rate = Inl RangeStepZero"
  proof (intro impI, elim conjE)
    assume a: "0 < height x" "0 < width x" "0 < width y" "height x \<le> height y"
      "\<not> \<bar>float_sub sw sh\<bar> > scale_tolerance" "height x > lr \<or> width x > lr"
      "\<lfloor>int_mul_float (min (height x) lr) step_rate\<rfloor> = 0 \<or>
       \<lfloor>int_mul_float (min (width x) lr) step_rate\<rfloor> = 0"
    then have nz: "height y \<noteq> 0" "width y \<noteq> 0" by simp_all
    from priv_pair_split_image_zero_stride
      [OF a(1,2) nz a(4) sh_def sw_def lr_def a(5) a(6) a(7)] a(4)
    show "pair_split_image x y max_size step_rate = Inl RangeStepZero"
      by (simp add: pair_split_image_def)
  qed
  then show "let scale_h = binary64 (of_int (height x) / of_int (height y));
        scale_w = binary64 (of_int (width x) / of_int (width y));
        lr_max_size = int_of_float (int_mul_float max_size scale_h)
    in 0 < height x \<and> 0 < width x \<and> 0 < width y \<and> height x \<le> height y \<and>
       \<not> \<bar>float_sub scale_w scale_h\<bar> > scale_tolerance \<and>
       (height x > lr_max_size \<or> width x > lr_max_size) \<and>
       (\<lfloor>int_mul_float (min (height x) lr_max_size) step_rate\<rfloor> = 0 \<or>
        \<lfloor>int_mul_float (min (width x) lr_max_size) step_rate\<rfloor> = 0) \<longrightarrow>
       pair_split_image x y max_size step_rate = Inl RangeStepZero"
    unfolding Let_def sh_def sw_def lr_def .
qed

theorem zero_stride_fails_witness:
  "split_image (Decoded ''x'' 256 256) 128 0 = Inl RangeStepZero \<and>
   pair_split_image (Decoded ''x'' 256 256) (Decoded ''y'' 1024 1024) 128 0 = Inl RangeStepZero"
proof -
  let ?x = "Decoded ''x'' 256 256" and ?y = "Decoded ''y'' 1024 1024"
  have s: "0 < height ?x \<and> 0 < width ?x \<and> (height ?x > 128 \<or> width ?x > 128) \<and>
    (\<lfloor>int_mul_float (min (height ?x) 128) 0\<rfloor> = 0 \<or>
     \<lfloor>int_mul_float (min (width ?x) 128) 0\<rfloor> = 0)"
    by (simp add: int_mul_float_def)
  have lr: "int_of_float (int_mul_float 128
      (binary64 (of_int (height ?x) / of_int (height ?y)))) = 32"
    by code_simp
  have ok: "\<not> \<bar>float_sub (binary64 (of_int (width ?x) / of_int (width ?y)))
                 (binary64 (of_int (height ?x) / of_int (height ?y)))\<bar> > scale_tolerance"
    by code_simp
  have p: "0 < height ?x \<and> 0 < width ?x \<and> 0 < width ?y \<and> height ?x \<le> height ?y \<and>
       \<not> \<bar>float_sub (binary64 (of_int (width ?x) / of_int (width ?y)))
                 (binary64 (of_int (height ?x) / of_int (height ?y)))\<bar> > scale_tolerance \<and>
       (height ?x > 32 \<or> width ?x > 32) \<and>
       (\<lfloor>int_mul_float (min (height ?x) 32) 0\<rfloor> = 0 \<or>
        \<lfloor>int_mul_float (min (width ?x) 32) 0\<rfloor> = 0)"
    using ok by (simp add: int_mul_float_def)
  from zero_stride_fails [of ?x 128 0 ?y] s p
  show ?thesis
    unfolding Let_def lr by blast
qed



section \<open>Alignment of the tiles of a pair\<close>

lemma upscale_round_trip:
  assumes "0 < a" "0 < b" "0 \<le> i" "i \<le> a" "a * b < 2 ^ 51"
    and "s = binary64 (of_int a / of_int b)"
    and "i = int_of_float (int_mul_float (upscale i s) s)"
  shows "upscale i s * a = i * b"
proof -
  have "i * b \<le> a * b"
    using assms(2,4) by (intro mult_right_mono) auto
  with assms(5) have "i * b < 2 ^ 51" by simp
  from scale_round_trip [OF assms(1,2,3) this assms(6) _ assms(7)] show ?thesis
    by (simp add: upscale_def)
qed

lemma py_range_bounds:
  assumes "py_range 0 stop step = Inr rows" "0 \<le> stop" "i \<in> set rows"
  shows "0 \<le> i \<and> i < stop"
proof (cases "0 < step")
  case True
  with assms(1) have "rows = range_up 0 stop step"
    by (auto simp: py_range_def split: if_splits)
  with assms(3) range_up_bounds [of i 0 stop step] show ?thesis by simp
next
  case False
  with assms(1) have "rows = range_down 0 stop step"
    by (auto simp: py_range_def split: if_splits)
  moreover have "range_down 0 stop step = []"
    using assms(2) by (subst range_down.simps) simp
  ultimately show ?thesis using assms(3) by simp
qed

lemma list_all2_tiles:
  assumes "\<And>i j. i \<in> set rows \<Longrightarrow> j \<in> set cols \<Longrightarrow> P (f i j) (g i j)"
  shows "list_all2 P (concat (map (\<lambda>i. map (f i) cols) rows))
                     (concat (map (\<lambda>i. map (g i) cols) rows))"
  using assms
proof (induction rows)
  case Nil
  then show ?case by simp
next
  case (Cons i rows)
  have "list_all2 P (map (f i) cols) (map (g i) cols)"
    using Cons.prems by (simp add: list_all2_map1 list_all2_map2 list_all2_same)
  moreover have "list_all2 P (concat (map (\<lambda>i. map (f i) cols) rows))
                     (concat (map (\<lambda>i. map (g i) cols) rows))"
    using Cons.prems by (intro Cons.IH) simp_all
  ultimately show ?case by (simp add: list_all2_appendI)
qed

lemma scale_tolerance_nonneg: "0 \<le> scale_tolerance"
  unfolding scale_tolerance_def by (rule binary64_nonneg) simp

lemma int_mul_float_nonneg: "0 \<le> n \<Longrightarrow> 0 \<le> s \<Longrightarrow> 0 \<le> int_mul_float n s"
  unfolding int_mul_float_def float_of_int_def
  by (intro binary64_nonneg mult_nonneg_nonneg) simp_all

lemma priv_pair_split_image_scaled:
  assumes pos: "0 < height x" "0 < width x" "0 < height y" "0 < width y"
    and small: "height x * height y < 2 ^ 51" "width x * width y < 2 ^ 51"
    and m: "0 \<le> max_size"
    and res: "priv_pair_split_image x y max_size split_step = Inr (xs, ys)"
  shows "list_all2 (scaled_region x y) xs ys"
proof -
  define sh where "sh = binary64 (of_int (height x) / of_int (height y))"
  define sw where "sw = binary64 (of_int (width x) / of_int (width y))"
  define lr where "lr = int_of_float (int_mul_float max_size sh)"
  define crop_h where "crop_h = min (height x) lr"
  define crop_w where "crop_w = min (width x) lr"
  define step_h where "step_h = int_of_float (int_mul_float crop_h split_step)"
  define step_w where "step_w = int_of_float (int_mul_float crop_w split_step)"
  have nz: "height y \<noteq> 0" "width y \<noteq> 0" using pos by simp_all
  note unfold = priv_pair_split_image_unfold
    [OF nz sh_def sw_def lr_def crop_h_def crop_w_def step_h_def step_w_def]
  have "0 \<le> sh"
    unfolding sh_def using pos by (intro binary64_nonneg) simp
  then have "0 \<le> lr"
    unfolding lr_def using m by (intro int_of_float_nonneg int_mul_float_nonneg)
  then have ch: "0 \<le> crop_h" "crop_h \<le> height x" and cw: "0 \<le> crop_w" "crop_w \<le> width x"
    using pos by (simp_all add: crop_h_def crop_w_def)
  show ?thesis
  proof (cases "height x \<noteq> crop_h \<or> width x \<noteq> crop_w")
    case False
    with res have "xs = [Whole x]" "ys = [Whole y]"
      unfolding unfold by (simp_all split: if_splits)
    then show ?thesis by (simp add: scaled_region_def mult.commute)
  next
    case True
    with res obtain rows where
      rows: "py_range 0 (height x - crop_h + 1) step_h = Inr rows"
      and loop: "pair_split_rows x y sh sw crop_h crop_w (width x - crop_w + 1) step_w rows
                   ([], []) = Inr (xs, ys)"
      unfolding unfold by (auto simp: and_then_def split: if_splits sum.splits)
    show ?thesis
    proof (cases "rows = []")
      case True
      with loop show ?thesis by simp
    next
      case False
      from pair_split_rows_Inr [OF loop False] obtain cols where
        cols: "py_range 0 (width x - crop_w + 1) step_w = Inr cols"
        and xs: "xs = concat (map (\<lambda>i. map (\<lambda>j. Crop x i j crop_h crop_w) cols) rows)"
        and ys: "ys = concat (map (\<lambda>i. map (\<lambda>j. Crop y (upscale i sh) (upscale j sw)
                                  (upscale crop_h sh) (upscale crop_w sw)) cols) rows)"
        and ok: "\<forall>i \<in> set rows. \<forall>j \<in> set cols. \<exists>ty.
                   pair_split_tile x y sh sw crop_h crop_w i j = Inr (Crop x i j crop_h crop_w, ty)"
        by auto
      have "scaled_region x y (Crop x i j crop_h crop_w)
              (Crop y (upscale i sh) (upscale j sw) (upscale crop_h sh) (upscale crop_w sw))"
        if i: "i \<in> set rows" and j: "j \<in> set cols" for i j
      proof -
        from ok i j obtain ty where
          t: "pair_split_tile x y sh sw crop_h crop_w i j = Inr (Crop x i j crop_h crop_w, ty)"
          by blast
        note rt = pair_split_tile_Inr(5-8) [OF t]
        from py_range_bounds [OF rows _ i] ch have ib: "0 \<le> i" "i \<le> height x" by simp_all
        from py_range_bounds [OF cols _ j] cw have jb: "0 \<le> j" "j \<le> width x" by simp_all
        have "upscale i sh * height x = i * height y"
          using pos(1,3) ib small(1) sh_def rt(1) by (rule upscale_round_trip)
        moreover have "upscale crop_h sh * height x = crop_h * height y"
          using pos(1,3) ch small(1) sh_def rt(3) by (rule upscale_round_trip)
        moreover have "upscale j sw * width x = j * width y"
          using pos(2,4) jb small(2) sw_def rt(2) by (rule upscale_round_trip)
        moreover have "upscale crop_w sw * width x = crop_w * width y"
          using pos(2,4) cw small(2) sw_def rt(4) by (rule upscale_round_trip)
        ultimately show ?thesis by (simp add: scaled_region_def)
      qed
      then show ?thesis unfolding xs ys by (rule list_all2_tiles)
    qed
  qed
qed


lemma pair_split_tile_Inl_nonzero:
  assumes "sh \<noteq> 0" "sw \<noteq> 0" "pair_split_tile x y sh sw crop_h crop_w i j = Inl e"
  shows "e = AssertionError"
  using assms
  by (auto simp: pair_split_tile_def and_then_def int_div_float_def split: if_splits)

lemma pair_split_cols_Inl_nonzero:
  assumes "sh \<noteq> 0" "sw \<noteq> 0"
    and "pair_split_cols x y sh sw crop_h crop_w i cols images = Inl e"
  shows "e = AssertionError"
  using assms(3)
proof (induction cols arbitrary: images)
  case Nil
  then show ?case by simp
next
  case (Cons j cols)
  show ?case
  proof (cases "pair_split_tile x y sh sw crop_h crop_w i j")
    case (Inl e')
    with Cons.prems have "e = e'" by simp
    with Inl assms(1,2) show ?thesis by (auto dest: pair_split_tile_Inl_nonzero)
  next
    case (Inr t)
    with Cons.prems Cons.IH show ?thesis by (cases t) auto
  qed
qed

lemma pair_split_rows_Inl_nonzero:
  assumes "sh \<noteq> 0" "sw \<noteq> 0"
    and "pair_split_rows x y sh sw crop_h crop_w stop_w step_w rows images = Inl e"
  shows "e = AssertionError \<or> e = RangeStepZero"
  using assms(3)
proof (induction rows arbitrary: images)
  case Nil
  then show ?case by simp
next
  case (Cons i rows)
  show ?case
  proof (cases "py_range 0 stop_w step_w")
    case (Inl e')
    with Cons.prems have "e = e'" by simp
    with Inl show ?thesis by (auto simp: py_range_def split: if_splits)
  next
    case (Inr cols)
    show ?thesis
    proof (cases "pair_split_cols x y sh sw crop_h crop_w i cols images")
      case (Inl e')
      with Cons.prems Inr have "e = e'" by simp
      with Inl assms(1,2) show ?thesis by (auto dest: pair_split_cols_Inl_nonzero)
    next
      case (Inr images')
      with Cons.prems \<open>py_range 0 stop_w step_w = Inr cols\<close> Cons.IH show ?thesis by auto
    qed
  qed
qed

lemma priv_pair_split_image_Inl:
  assumes pos: "0 < height x" "0 < width x" "0 < height y" "0 < width y"
    and res: "priv_pair_split_image x y max_size split_step = Inl e"
  shows "e = AssertionError \<or> e = RangeStepZero \<or>
         e = UnpredictableScale (height x) (width x) (height y) (width y)"
proof -
  define sh where "sh = binary64 (of_int (height x) / of_int (height y))"
  define sw where "sw = binary64 (of_int (width x) / of_int (width y))"
  define lr where "lr = int_of_float (int_mul_float max_size sh)"
  define crop_h where "crop_h = min (height x) lr"
  define crop_w where "crop_w = min (width x) lr"
  define step_h where "step_h = int_of_float (int_mul_float crop_h split_step)"
  define step_w where "step_w = int_of_float (int_mul_float crop_w split_step)"
  have nz: "height y \<noteq> 0" "width y \<noteq> 0" using pos by simp_all
  note unfold = priv_pair_split_image_unfold
    [OF nz sh_def sw_def lr_def crop_h_def crop_w_def step_h_def step_w_def]
  have s: "sh \<noteq> 0" "sw \<noteq> 0"
    unfolding sh_def sw_def using pos by (simp_all add: binary64_eq_0_iff)
  show ?thesis
  proof (cases "py_range 0 (height x - crop_h + 1) step_h")
    case (Inl e')
    then have "e' = RangeStepZero" by (auto simp: py_range_def split: if_splits)
    with res Inl show ?thesis unfolding unfold by (auto split: if_splits)
  next
    case (Inr rows)
    with res pair_split_rows_Inl_nonzero [OF s, of x y crop_h crop_w "width x - crop_w + 1"
        step_w rows "([], [])" e]
    show ?thesis unfolding unfold by (auto split: if_splits)
  qed
qed

text \<open>
  Claim C5. For a pair of images that are not empty, with \<open>lo.h * hi.h\<close> and \<open>lo.w * hi.w\<close>
  below \<open>2^51\<close> (every pair of images with dimensions below \<open>2^25\<close>) and a maximal size
  that is not negative: when \<^verbatim>\<open>pair_split_image\<close> returns, it returns two sequences of the
  same length, and at every index the high-resolution tile is cut from the
  high-resolution image at the region of the low-resolution tile scaled by the ratio of
  the images, in origin and in extent, exactly. Otherwise it fails: with the
  \<^verbatim>\<open>AssertionError\<close> of the alignment test, or, before any tile is derived, with the error
  of a zero stride or of the scale test.
\<close>

theorem pair_split_image_aligned:
  assumes "0 < height x" "0 < width x" "0 < height y" "0 < width y"
    and "height x * height y < 2 ^ 51" "width x * width y < 2 ^ 51"
    and "0 \<le> max_size"
  shows
    "(\<exists>x_images y_images.
        pair_split_image x y max_size split_step = Inr (x_images, y_images) \<and>
        length x_images = length y_images \<and>
        (\<forall>n < length x_images.
           if height x \<le> height y
           then scaled_region x y (x_images ! n) (y_images ! n)
           else scaled_region y x (y_images ! n) (x_images ! n))) \<or>
     pair_split_image x y max_size split_step = Inl AssertionError \<or>
     pair_split_image x y max_size split_step = Inl RangeStepZero \<or>
     is_scale_mismatch (pair_split_image x y max_size split_step)"
proof (cases "height x \<le> height y")
  case True
  then have eq: "pair_split_image x y max_size split_step =
      priv_pair_split_image x y max_size split_step"
    by (simp add: pair_split_image_def)
  show ?thesis
  proof (cases "priv_pair_split_image x y max_size split_step")
    case (Inl e)
    from priv_pair_split_image_Inl [OF assms(1-4) Inl] show ?thesis
      unfolding eq Inl by auto
  next
    case (Inr r)
    obtain xs ys where r: "r = (xs, ys)" by (cases r)
    from priv_pair_split_image_scaled [OF assms Inr [unfolded r]]
    have "list_all2 (scaled_region x y) xs ys" .
    then have "length xs = length ys \<and> (\<forall>n < length xs. scaled_region x y (xs ! n) (ys ! n))"
      by (simp add: list_all2_conv_all_nth)
    with True show ?thesis unfolding eq Inr r by auto
  qed
next
  case False
  then have eq: "pair_split_image x y max_size split_step =
      and_then (priv_pair_split_image y x max_size split_step)
        (\<lambda>(y_images, x_images). Inr (x_images, y_images))"
    by (simp add: pair_split_image_def)
  have small: "height y * height x < 2 ^ 51" "width y * width x < 2 ^ 51"
    using assms(5,6) by (simp_all add: mult.commute)
  show ?thesis
  proof (cases "priv_pair_split_image y x max_size split_step")
    case (Inl e)
    from priv_pair_split_image_Inl [OF assms(3,4,1,2) Inl] show ?thesis
      unfolding eq Inl by auto
  next
    case (Inr r)
    obtain ys xs where r: "r = (ys, xs)" by (cases r)
    from priv_pair_split_image_scaled [OF assms(3,4,1,2) small assms(7) Inr [unfolded r]]
    have "list_all2 (scaled_region y x) ys xs" .
    then have "length xs = length ys \<and> (\<forall>n < length xs. scaled_region y x (ys ! n) (xs ! n))"
      by (auto simp: list_all2_conv_all_nth)
    with False show ?thesis unfolding eq Inr r by auto
  qed
qed

theorem pair_split_image_aligned_witness:
  "pair_split_image (Decoded ''lo'' 4 2) (Decoded ''hi'' 8 4) 4 1 =
     Inr ([Crop (Decoded ''lo'' 4 2) 0 0 2 2, Crop (Decoded ''lo'' 4 2) 2 0 2 2],
          [Crop (Decoded ''hi'' 8 4) 0 0 4 4, Crop (Decoded ''hi'' 8 4) 4 0 4 4]) \<and>
   scaled_region (Decoded ''lo'' 4 2) (Decoded ''hi'' 8 4)
     (Crop (Decoded ''lo'' 4 2) 2 0 2 2) (Crop (Decoded ''hi'' 8 4) 4 0 4 4)"
proof -
  let ?x = "Decoded ''lo'' 4 2" and ?y = "Decoded ''hi'' 8 4"
  have h: "pair_split_image ?x ?y 4 1 =
     Inr ([Crop ?x 0 0 2 2, Crop ?x 2 0 2 2], [Crop ?y 0 0 4 4, Crop ?y 4 0 4 4])"
    by code_simp
  have p: "0 < height ?x" "0 < width ?x" "0 < height ?y" "0 < width ?y"
    "height ?x * height ?y < 2 ^ 51" "width ?x * width ?y < 2 ^ 51" "(0::int) \<le> 4"
    by simp_all
  from pair_split_image_aligned [OF p, of 1]
  have "scaled_region ?x ?y ([Crop ?x 0 0 2 2, Crop ?x 2 0 2 2] ! 1)
          ([Crop ?y 0 0 4 4, Crop ?y 4 0 4 4] ! 1)"
    unfolding h by (auto simp: is_scale_mismatch_def)
  with h show ?thesis by simp
qed


section \<open>The round trip of \<^verbatim>\<open>pair_crop_max\<close>\<close>

lemma crop_round_trip_times:
  assumes "1 \<le> r" "tile_height t_hi = tile_height t_lo * r" "tile_width t_hi = tile_width t_lo * r"
  shows "crop_round_trip r t_lo t_hi"
proof -
  have "round (of_int (tile_height t_lo) * of_int r :: rat) = tile_height t_lo * r"
    by (metis of_int_mult round_of_int)
  moreover have "round (of_int (tile_width t_lo) * of_int r :: rat) = tile_width t_lo * r"
    by (metis of_int_mult round_of_int)
  ultimately show ?thesis
    using assms by (simp add: crop_round_trip_def)
qed

lemma priv_pair_crop_max_round_trip:
  assumes r: "1 \<le> r"
    and pos: "0 < height x" "0 < width x"
    and hy: "height y = r * height x" and wy: "width y = r * width x"
    and small: "height x * height y < 2 ^ 51" "width x * width y < 2 ^ 51"
    and m: "0 \<le> max_size"
  shows "priv_pair_crop_max x y max_size = Inl AssertionError \<or>
    (\<exists>t_lo t_hi. priv_pair_crop_max x y max_size = Inr (t_lo, t_hi) \<and>
       tile_of t_lo = x \<and> tile_of t_hi = y \<and> crop_round_trip r t_lo t_hi)"
proof -
  define sh where "sh = binary64 (of_int (height x) / of_int (height y))"
  define sw where "sw = binary64 (of_int (width x) / of_int (width y))"
  define lr where "lr = int_of_float (int_mul_float max_size sh)"
  define lxh where "lxh = min (height x) lr"
  define lxw where "lxw = min (width x) lr"
  have ypos: "0 < height y" "0 < width y"
    using r pos by (simp_all add: hy wy)
  then have nz: "height y \<noteq> 0" "width y \<noteq> 0" by simp_all
  note unfold = priv_pair_crop_max_unfold [OF nz sh_def sw_def lr_def lxh_def lxw_def]
  have "(of_int (width x) / of_int (width y) :: rat) = of_int (height x) / of_int (height y)"
    using pos r by (simp add: hy wy)
  then have same: "sw = sh" by (simp add: sh_def sw_def)
  have ok: "\<not> \<bar>float_sub sw sh\<bar> > scale_tolerance"
    using scale_tolerance_nonneg by (simp add: same float_sub_def)
  have le: "height x \<le> height y"
    using r pos unfolding hy by (simp add: mult_le_cancel_right1)
  have s: "0 < sh" "0 < sw"
    unfolding sh_def sw_def using pos ypos by (simp_all add: binary64_pos_iff)
  then have "0 \<le> lr"
    unfolding lr_def using m by (intro int_of_float_nonneg int_mul_float_nonneg) simp_all
  then have bh: "0 \<le> lxh" "lxh \<le> height x" and bw: "0 \<le> lxw" "lxw \<le> width x"
    using pos by (simp_all add: lxh_def lxw_def)
  show ?thesis
  proof (cases "lxh \<noteq> height x \<or> lxw \<noteq> width x")
    case False
    then have "priv_pair_crop_max x y max_size = Inr (Whole x, Whole y)"
      unfolding unfold using ok le by simp
    moreover have "crop_round_trip r (Whole x) (Whole y)"
      using r by (intro crop_round_trip_times) (simp_all add: hy wy mult.commute)
    ultimately show ?thesis by auto
  next
    case True
    show ?thesis
    proof (cases "lxh = int_of_float (int_mul_float (upscale lxh sh) sh) \<and>
                  lxw = int_of_float (int_mul_float (upscale lxw sw) sw)")
      case False
      then have "priv_pair_crop_max x y max_size = Inl AssertionError"
        unfolding unfold using ok le True s
        by (simp add: int_div_float_def upscale_def)
      then show ?thesis by simp
    next
      case rt: True
      then have res: "priv_pair_crop_max x y max_size =
          Inr (CropRef x 0 0 lxh lxw, CropRef y 0 0 (upscale lxh sh) (upscale lxw sw))"
        unfolding unfold using ok le True s
        by (simp add: int_div_float_def upscale_def)
      have "upscale lxh sh * height x = lxh * height y"
        using pos(1) ypos(1) bh small(1) sh_def rt [THEN conjunct1] by (rule upscale_round_trip)
      then have h: "upscale lxh sh = lxh * r"
        using pos(1) by (simp add: hy)
      have "upscale lxw sw * width x = lxw * width y"
        using pos(2) ypos(2) bw small(2) sw_def rt [THEN conjunct2] by (rule upscale_round_trip)
      then have w: "upscale lxw sw = lxw * r"
        using pos(2) by (simp add: wy)
      have "crop_round_trip r (CropRef x 0 0 lxh lxw)
              (CropRef y 0 0 (upscale lxh sh) (upscale lxw sw))"
        using r by (intro crop_round_trip_times) (simp_all add: h w)
      with res show ?thesis by auto
    qed
  qed
qed

text \<open>
  Claim C4. For a pair of images that are not empty, with the integer ratio \<open>r\<close> between
  the high-resolution image \<open>y\<close> and the low-resolution image \<open>x\<close> in height and in width,
  \<open>x.h * y.h\<close> and \<open>x.w * y.w\<close> below \<open>2^51\<close>, and a maximal size that is not negative,
  in either order of the arguments: \<^verbatim>\<open>pair_crop_max\<close> either fails with the
  \<^verbatim>\<open>AssertionError\<close> of its round-trip test, or returns a low-resolution and a
  high-resolution tile such that the high-resolution height is the rounded product of the
  low-resolution height and \<open>r\<close>, and divided by \<open>r\<close> gives the low-resolution height
  back; likewise for the widths.
\<close>

theorem pair_crop_max_round_trip:
  assumes "1 \<le> r" and "0 < height x" "0 < width x"
    and "height y = r * height x" and "width y = r * width x"
    and "height x * height y < 2 ^ 51" "width x * width y < 2 ^ 51"
    and "0 \<le> max_size"
  shows
    "(pair_crop_max x y max_size = Inl AssertionError \<or>
      (\<exists>t_lo t_hi. pair_crop_max x y max_size = Inr (t_lo, t_hi) \<and>
         tile_of t_lo = x \<and> tile_of t_hi = y \<and> crop_round_trip r t_lo t_hi)) \<and>
     (pair_crop_max y x max_size = Inl AssertionError \<or>
      (\<exists>t_lo t_hi. pair_crop_max y x max_size = Inr (t_hi, t_lo) \<and>
         tile_of t_lo = x \<and> tile_of t_hi = y \<and> crop_round_trip r t_lo t_hi))"
proof (intro conjI)
  have le: "height x \<le> height y"
    using assms(1,2) unfolding assms(4) by (simp add: mult_le_cancel_right1)
  then have "pair_crop_max x y max_size = priv_pair_crop_max x y max_size"
    by (simp add: pair_crop_max_def)
  with priv_pair_crop_max_round_trip [OF assms]
  show "pair_crop_max x y max_size = Inl AssertionError \<or>
      (\<exists>t_lo t_hi. pair_crop_max x y max_size = Inr (t_lo, t_hi) \<and>
         tile_of t_lo = x \<and> tile_of t_hi = y \<and> crop_round_trip r t_lo t_hi)"
    by simp
  show "pair_crop_max y x max_size = Inl AssertionError \<or>
      (\<exists>t_lo t_hi. pair_crop_max y x max_size = Inr (t_hi, t_lo) \<and>
         tile_of t_lo = x \<and> tile_of t_hi = y \<and> crop_round_trip r t_lo t_hi)"
  proof (cases "height y \<le> height x")
    case False
    then have "pair_crop_max y x max_size =
        and_then (priv_pair_crop_max x y max_size) (\<lambda>(a, b). Inr (b, a))"
      by (simp add: pair_crop_max_def)
    with priv_pair_crop_max_round_trip [OF assms] show ?thesis
      by auto
  next
    case True
    with le have eq: "height y = height x" by simp
    with assms(2,4) have r1: "r = 1" by simp
    then have weq: "width y = width x" using assms(5) by simp
    have "pair_crop_max y x max_size = priv_pair_crop_max y x max_size"
      using True by (simp add: pair_crop_max_def)
    moreover have "priv_pair_crop_max y x max_size = Inl AssertionError \<or>
      (\<exists>t_lo t_hi. priv_pair_crop_max y x max_size = Inr (t_lo, t_hi) \<and>
         tile_of t_lo = y \<and> tile_of t_hi = x \<and> crop_round_trip 1 t_lo t_hi)"
      using assms(2,3,6,7) by (intro priv_pair_crop_max_round_trip assms(8)) (simp_all add: eq weq)
    moreover have "crop_round_trip 1 a b \<Longrightarrow> crop_round_trip 1 b a" for a b
      by (simp add: crop_round_trip_def)
    ultimately show ?thesis unfolding r1 by metis
  qed
qed

theorem pair_crop_max_round_trip_witness:
  "pair_crop_max (Decoded ''lo'' 300 300) (Decoded ''hi'' 900 900) 300 =
     Inr (CropRef (Decoded ''lo'' 300 300) 0 0 100 100, CropRef (Decoded ''hi'' 900 900) 0 0 300 300) \<and>
   crop_round_trip 3 (CropRef (Decoded ''lo'' 300 300) 0 0 100 100)
     (CropRef (Decoded ''hi'' 900 900) 0 0 300 300)"
proof -
  let ?x = "Decoded ''lo'' 300 300" and ?y = "Decoded ''hi'' 900 900"
  have h: "pair_crop_max ?x ?y 300 = Inr (CropRef ?x 0 0 100 100, CropRef ?y 0 0 300 300)"
    by code_simp
  have p: "(1::int) \<le> 3" "0 < height ?x" "0 < width ?x"
    "height ?y = 3 * height ?x" "width ?y = 3 * width ?x"
    "height ?x * height ?y < 2 ^ 51" "width ?x * width ?y < 2 ^ 51" "(0::int) \<le> 300"
    by simp_all
  from pair_crop_max_round_trip [OF p, THEN conjunct1]
  have "crop_round_trip 3 (CropRef ?x 0 0 100 100) (CropRef ?y 0 0 300 300)"
    unfolding h by auto
  with h show ?thesis by simp
qed


text \<open>
  The failure occurs: for the ratio 49, the float \<open>1 / 49\<close> times 49 is below 1, and a
  low-resolution crop of height 1 does not survive the round trip.
\<close>

lemma pair_crop_max_ratio_49:
  "pair_crop_max (Decoded ''lo'' 2 2) (Decoded ''hi'' 98 98) 50 = Inl AssertionError"
  by code_simp

section \<open>The sizes of \<^verbatim>\<open>pair_crop_max\<close>\<close>

lemma round_scaled:
  fixes k i a b :: int
  assumes "0 < a" "k * a = i * b"
  shows "round (of_int i * (of_int b / of_int a) :: rat) = k"
proof -
  have "(of_int i * of_int b :: rat) = of_int k * of_int a"
    using assms(2) by (metis of_int_mult)
  then have "(of_int i * (of_int b / of_int a) :: rat) = of_int k"
    using assms(1) by (simp add: field_simps)
  then show ?thesis by simp
qed

lemma priv_pair_crop_max_exact:
  assumes res: "priv_pair_crop_max x y max_size = Inr (x', y')"
    and pos: "0 < height x" "0 < width x" "0 < height y" "0 < width y"
    and small: "height x * height y < 2 ^ 51" "width x * width y < 2 ^ 51"
    and m: "0 \<le> max_size"
  shows "let scale_h = binary64 (of_int (height x) / of_int (height y));
             lr_max_size = int_of_float (int_mul_float max_size scale_h);
             lxh = min (height x) lr_max_size;
             lxw = min (width x) lr_max_size
         in if lxh = height x \<and> lxw = width x
            then x' = Whole x \<and> y' = Whole y
            else x' = CropRef x 0 0 lxh lxw \<and>
                 y' = CropRef y 0 0
                        (round (of_int lxh * (of_int (height y) / of_int (height x)) :: rat))
                        (round (of_int lxw * (of_int (width y) / of_int (width x)) :: rat))"
proof -
  define sh where "sh = binary64 (of_int (height x) / of_int (height y))"
  define sw where "sw = binary64 (of_int (width x) / of_int (width y))"
  define lr where "lr = int_of_float (int_mul_float max_size sh)"
  define lxh where "lxh = min (height x) lr"
  define lxw where "lxw = min (width x) lr"
  have nz: "height y \<noteq> 0" "width y \<noteq> 0" using pos by simp_all
  note unfold = priv_pair_crop_max_unfold [OF nz sh_def sw_def lr_def lxh_def lxw_def]
  have s: "0 < sh" "0 < sw"
    unfolding sh_def sw_def using pos by (simp_all add: binary64_pos_iff)
  then have "0 \<le> lr"
    unfolding lr_def using m by (intro int_of_float_nonneg int_mul_float_nonneg) simp_all
  then have bh: "0 \<le> lxh" "lxh \<le> height x" and bw: "0 \<le> lxw" "lxw \<le> width x"
    using pos by (simp_all add: lxh_def lxw_def)
  have "if lxh = height x \<and> lxw = width x
        then x' = Whole x \<and> y' = Whole y
        else x' = CropRef x 0 0 lxh lxw \<and>
             y' = CropRef y 0 0
                    (round (of_int lxh * (of_int (height y) / of_int (height x)) :: rat))
                    (round (of_int lxw * (of_int (width y) / of_int (width x)) :: rat))"
  proof (cases "lxh \<noteq> height x \<or> lxw \<noteq> width x")
    case False
    with res show ?thesis
      unfolding unfold by (auto split: if_splits)
  next
    case True
    with res s have rt: "lxh = int_of_float (int_mul_float (upscale lxh sh) sh)"
        "lxw = int_of_float (int_mul_float (upscale lxw sw) sw)"
      and x': "x' = CropRef x 0 0 lxh lxw"
      and y': "y' = CropRef y 0 0 (upscale lxh sh) (upscale lxw sw)"
      unfolding unfold by (auto simp: int_div_float_def upscale_def split: if_splits)
    have "upscale lxh sh * height x = lxh * height y"
      using pos(1,3) bh small(1) sh_def rt(1) by (rule upscale_round_trip)
    then have h: "round (of_int lxh * (of_int (height y) / of_int (height x)) :: rat) =
        upscale lxh sh"
      using pos(1) by (intro round_scaled)
    have "upscale lxw sw * width x = lxw * width y"
      using pos(2,4) bw small(2) sw_def rt(2) by (rule upscale_round_trip)
    then have w: "round (of_int lxw * (of_int (width y) / of_int (width x)) :: rat) =
        upscale lxw sw"
      using pos(2) by (intro round_scaled)
    show ?thesis unfolding h w using True x' y' by auto
  qed
  then show ?thesis
    unfolding Let_def sh_def lr_def lxh_def lxw_def .
qed

lemma scenario_B:
  "pair_crop_max (Decoded a 256 256) (Decoded b 1024 1024) 128 =
     Inr (CropRef (Decoded a 256 256) 0 0 32 32, CropRef (Decoded b 1024 1024) 0 0 128 128)"
  by code_simp


lemma priv_pair_crop_max_Inl:
  assumes pos: "0 < height x" "0 < width x" "0 < height y" "0 < width y"
    and res: "priv_pair_crop_max x y max_size = Inl e"
  shows "e = AssertionError \<or>
         e = UnpredictableScale (height x) (width x) (height y) (width y)"
proof -
  define sh where "sh = binary64 (of_int (height x) / of_int (height y))"
  define sw where "sw = binary64 (of_int (width x) / of_int (width y))"
  define lr where "lr = int_of_float (int_mul_float max_size sh)"
  define lxh where "lxh = min (height x) lr"
  define lxw where "lxw = min (width x) lr"
  have nz: "height y \<noteq> 0" "width y \<noteq> 0" using pos by simp_all
  note unfold = priv_pair_crop_max_unfold [OF nz sh_def sw_def lr_def lxh_def lxw_def]
  have s: "sh \<noteq> 0" "sw \<noteq> 0"
    unfolding sh_def sw_def using pos by (simp_all add: binary64_eq_0_iff)
  from res s show ?thesis
    unfolding unfold by (auto simp: int_div_float_def split: if_splits)
qed

text \<open>
  Claim C1, as the code has it. For an input image of 256 by 256 and a target image of
  1024 by 1024 with the maximal size 128, \<^verbatim>\<open>pair_crop_max\<close> returns the input tile 32 by 32
  and the target tile 128 by 128, both at the origin. In general, for every pair of images
  that are not empty, with \<open>lo.h * hi.h\<close> and \<open>lo.w * hi.w\<close> below \<open>2^51\<close> and a maximal size
  that is not negative, \<open>lo\<close> being the side of the smaller (or equal) height and \<open>hi\<close> the
  other one: \<^verbatim>\<open>pair_crop_max\<close> fails with the error of its scale test or of its round-trip
  test, or it returns as follows. The low-resolution crop size is the minimum of the
  dimension and of the bound \<open>int(max_size * scale_h)\<close>, for the float
  \<open>scale_h = lo.h / hi.h\<close>, in height and in width; the low-resolution image is cropped to
  that size and the high-resolution image to the rounded product of the low-resolution
  crop size and the ratio of the images, \<open>hi.h / lo.h\<close> in height and \<open>hi.w / lo.w\<close> in
  width, both at the origin (images that have that size already are returned as they
  are).
\<close>

theorem pair_crop_max_sizes:
  assumes "0 < height x" "0 < width x" "0 < height y" "0 < width y"
    and "height x * height y < 2 ^ 51" "width x * width y < 2 ^ 51"
    and "0 \<le> max_size"
  shows
    "(pair_crop_max x y max_size = Inl AssertionError \<or>
      is_scale_mismatch (pair_crop_max x y max_size) \<or>
      (\<exists>x' y'. pair_crop_max x y max_size = Inr (x', y') \<and>
         (let (lo, hi, lo', hi') =
                (if height x \<le> height y then (x, y, x', y') else (y, x, y', x'));
              scale_h = binary64 (of_int (height lo) / of_int (height hi));
              lr_max_size = int_of_float (int_mul_float max_size scale_h);
              lxh = min (height lo) lr_max_size;
              lxw = min (width lo) lr_max_size
          in if lxh = height lo \<and> lxw = width lo
             then lo' = Whole lo \<and> hi' = Whole hi
             else lo' = CropRef lo 0 0 lxh lxw \<and>
                  hi' = CropRef hi 0 0
                          (round (of_int lxh * (of_int (height hi) / of_int (height lo)) :: rat))
                          (round (of_int lxw * (of_int (width hi) / of_int (width lo)) :: rat))))) \<and>
     pair_crop_max (Decoded a 256 256) (Decoded b 1024 1024) 128 =
       Inr (CropRef (Decoded a 256 256) 0 0 32 32, CropRef (Decoded b 1024 1024) 0 0 128 128)"
proof (cases "height x \<le> height y")
  case True
  then have eq: "pair_crop_max x y max_size = priv_pair_crop_max x y max_size"
    by (simp add: pair_crop_max_def)
  show ?thesis
  proof (cases "priv_pair_crop_max x y max_size")
    case (Inl e)
    from priv_pair_crop_max_Inl [OF assms(1-4) Inl] scenario_B [of a b] show ?thesis
      unfolding eq Inl by auto
  next
    case (Inr r)
    obtain x' y' where r: "r = (x', y')" by (cases r)
    from priv_pair_crop_max_exact [OF Inr [unfolded r] assms] True scenario_B [of a b]
    show ?thesis
      unfolding eq Inr r by (simp add: Let_def)
  qed
next
  case False
  then have eq: "pair_crop_max x y max_size =
      and_then (priv_pair_crop_max y x max_size) (\<lambda>(y', x'). Inr (x', y'))"
    by (simp add: pair_crop_max_def)
  have small: "height y * height x < 2 ^ 51" "width y * width x < 2 ^ 51"
    using assms(5,6) by (simp_all add: mult.commute)
  show ?thesis
  proof (cases "priv_pair_crop_max y x max_size")
    case (Inl e)
    from priv_pair_crop_max_Inl [OF assms(3,4,1,2) Inl] scenario_B [of a b] show ?thesis
      unfolding eq Inl by auto
  next
    case (Inr r)
    obtain y' x' where r: "r = (y', x')" by (cases r)
    from priv_pair_crop_max_exact [OF Inr [unfolded r] assms(3,4,1,2) small assms(7)] False
      scenario_B [of a b]
    show ?thesis
      unfolding eq Inr r by (simp add: Let_def)
  qed
qed

theorem pair_crop_max_sizes_witness:
  "pair_crop_max (Decoded ''in'' 256 256) (Decoded ''tg'' 1024 1024) 128 =
     Inr (CropRef (Decoded ''in'' 256 256) 0 0 32 32, CropRef (Decoded ''tg'' 1024 1024) 0 0 128 128)
   \<and> min (height (Decoded ''in'' 256 256))
         (int_of_float (int_mul_float 128
            (binary64 (of_int (height (Decoded ''in'' 256 256)) /
                       of_int (height (Decoded ''tg'' 1024 1024)))))) = 32
   \<and> round (of_int 32 * (of_int (height (Decoded ''tg'' 1024 1024)) /
                          of_int (height (Decoded ''in'' 256 256))) :: rat) = 128"
proof -
  let ?x = "Decoded ''in'' 256 256" and ?y = "Decoded ''tg'' 1024 1024"
  have h: "pair_crop_max ?x ?y 128 = Inr (CropRef ?x 0 0 32 32, CropRef ?y 0 0 128 128)"
    by code_simp
  have p: "0 < height ?x" "0 < width ?x" "0 < height ?y" "0 < width ?y"
    "height ?x * height ?y < 2 ^ 51" "width ?x * width ?y < 2 ^ 51" "(0::int) \<le> 128"
    by simp_all
  have le: "height ?x \<le> height ?y"
    by simp
  have lr: "min (height ?x) (int_of_float (int_mul_float 128
      (binary64 (of_int (height ?x) / of_int (height ?y))))) = 32"
    "min (width ?x) (int_of_float (int_mul_float 128
      (binary64 (of_int (height ?x) / of_int (height ?y))))) = 32"
    by code_simp+
  from pair_crop_max_sizes [OF p, THEN conjunct1]
  have "CropRef ?y 0 0 128 128 =
      CropRef ?y 0 0 (round (of_int 32 * (of_int (height ?y) / of_int (height ?x)) :: rat))
                     (round (of_int 32 * (of_int (width ?y) / of_int (width ?x)) :: rat))"
    unfolding h by (simp only: Let_def le if_True split_conv lr) (simp add: is_scale_mismatch_def)
  then have "round (of_int 32 * (of_int (height ?y) / of_int (height ?x)) :: rat) = 128"
    by (simp only: tile.inject)
  with h lr(1) show ?thesis by (intro conjI)
qed

text \<open>
  Scenario B of the specification (input 256 by 256, target 1024 by 1024, maximal size
  128, no split): the code returns the input tile 32 by 32 and the target tile 128 by 128,
  both at the origin, and not the tiles 128 by 128 and 512 by 512.
\<close>

theorem pair_crop_max_scenario_B_counterexample:
  "pair_crop_max (Decoded ''x'' 256 256) (Decoded ''y'' 1024 1024) 128 =
     Inr (CropRef (Decoded ''x'' 256 256) 0 0 32 32, CropRef (Decoded ''y'' 1024 1024) 0 0 128 128)
   \<and> pair_crop_max (Decoded ''x'' 256 256) (Decoded ''y'' 1024 1024) 128 \<noteq>
     Inr (CropRef (Decoded ''x'' 256 256) 0 0 128 128, CropRef (Decoded ''y'' 1024 1024) 0 0 512 512)"
  by code_simp

end
